theory Spec2Isabelle
  imports Main "HOL-Library.Word" "HOL-Library.Multiset"
begin

section \<open>chksvs: converting hadock-wrapped SVS captures to CSV and XML\<close>

text \<open>
  A shallow embedding of \<^verbatim>\<open>chksvs.go\<close>.  Bytes are 8-bit words, Go strings are
  Isabelle strings (lists of 8-bit characters), fixed-width integers are words of their
  width.  Everything the program does to the file system is explicit state passing over
  the record \<open>fs\<close>; every error return is a value of \<open>error\<close>; a run-time panic is the
  constructor \<open>Panic\<close>; a loop that need not end is a \<^theory_text>\<open>partial_function\<close> whose value
  \<open>None\<close> stands for "does not return".
\<close>

subsection \<open>Bytes, characters and fixed-width integers\<close>

type_synonym byte = "8 word"

definition byte_of_char :: "char \<Rightarrow> byte" where
  "byte_of_char c = of_nat (of_char c)"

definition char_of_byte :: "byte \<Rightarrow> char" where
  "char_of_byte b = char_of (unat b)"

definition bytes_of :: "string \<Rightarrow> byte list" where
  "bytes_of s = map byte_of_char s"

definition string_of :: "byte list \<Rightarrow> string" where
  "string_of bs = map char_of_byte bs"

text \<open>The value of a byte sequence read least significant byte first
  (\<^verbatim>\<open>binary.LittleEndian\<close>) and most significant byte first (\<^verbatim>\<open>binary.BigEndian\<close>).\<close>

fun le_int :: "byte list \<Rightarrow> int" where
  "le_int [] = 0"
| "le_int (b # bs) = uint b + 256 * le_int bs"

definition be_int :: "byte list \<Rightarrow> int" where
  "be_int bs = le_int (rev bs)"

definition le_word :: "byte list \<Rightarrow> 'a::len word" where
  "le_word bs = word_of_int (le_int bs)"

definition be_word :: "byte list \<Rightarrow> 'a::len word" where
  "be_word bs = word_of_int (be_int bs)"

subsection \<open>Errors and panics\<close>

datatype error = EOF | ErrUnexpectedEOF | ENOENT | ENOTDIR | EISDIR

datatype panic = SliceBoundsOutOfRange | IntegerDivideByZero

datatype 'a exec = Return 'a | Panic panic

subsection \<open>Readers\<close>

text \<open>
  A reader is the list of bytes not yet consumed.  \<^verbatim>\<open>binary.Read\<close> of a value of \<open>n\<close>
  bytes is \<^verbatim>\<open>io.ReadFull\<close> on an \<open>n\<close>-byte buffer: all \<open>n\<close> bytes, or \<^verbatim>\<open>io.EOF\<close> when
  nothing is left, or \<^verbatim>\<open>io.ErrUnexpectedEOF\<close> when fewer than \<open>n\<close> bytes are left.
\<close>

definition binaryRead :: "nat \<Rightarrow> byte list \<Rightarrow> error + (byte list \<times> byte list)" where
  "binaryRead n r =
     (if n \<le> length r then Inr (take n r, drop n r)
      else if r = [] then Inl EOF
      else Inl ErrUnexpectedEOF)"

subsection \<open>Formatting integers (\<^verbatim>\<open>fmt\<close>, \<^verbatim>\<open>strconv\<close>)\<close>

text \<open>The digit table of \<^verbatim>\<open>strconv\<close>, as far as bases 10 and 16 need it.\<close>

definition digit :: "int \<Rightarrow> char" where
  "digit d = ''0123456789abcdef'' ! nat d"

text \<open>The digits of a non-negative number in a base, most significant first.\<close>

function digits :: "int \<Rightarrow> int \<Rightarrow> string" where
  "digits base n =
     (if base < 2 \<or> n < base then [digit n]
      else digits base (n div base) @ [digit (n mod base)])"
  by pat_completeness auto
termination
proof (relation "measure (\<lambda>(base, n). nat n)")
  show "wf (measure (\<lambda>(base, n). nat n))"
    by simp
next
  fix base n :: int
  assume "\<not> (base < 2 \<or> n < base)"
  then have "2 \<le> base" and "base \<le> n"
    by simp_all
  then have "n div base < n"
    by (simp add: int_div_less_self)
  with \<open>2 \<le> base\<close> \<open>base \<le> n\<close> show "((base, n div base), (base, n)) \<in> measure (\<lambda>(base, n). nat n)"
    by simp
qed

declare digits.simps [simp del]

text \<open>\<^verbatim>\<open>strconv.Itoa\<close> and the verb \<^verbatim>\<open>%d\<close>.\<close>

definition Itoa :: "int \<Rightarrow> string" where
  "Itoa n = (if n < 0 then CHR ''-'' # digits 10 (- n) else digits 10 n)"

text \<open>Left padding with zeros to a minimum width, as the flag \<^verbatim>\<open>0\<close> of \<^verbatim>\<open>fmt\<close> does.\<close>

definition zeroPad :: "nat \<Rightarrow> string \<Rightarrow> string" where
  "zeroPad w s = replicate (w - length s) (CHR ''0'') @ s"

text \<open>\<^verbatim>\<open>fmt.Sprintf("%06d", n)\<close> on an \<^verbatim>\<open>int64\<close>: the sign counts in the width.\<close>

definition fmt06d :: "int \<Rightarrow> string" where
  "fmt06d n = (if n < 0 then CHR ''-'' # zeroPad 5 (digits 10 (- n)) else zeroPad 6 (digits 10 n))"

text \<open>\<^verbatim>\<open>fmt.Sprintf("%04x", b)\<close> on a \<^verbatim>\<open>uint8\<close>.\<close>

definition fmt04x :: "8 word \<Rightarrow> string" where
  "fmt04x b = zeroPad 4 (digits 16 (uint b))"

text \<open>Reading a number back from its digits: the place of a character in the digit
  table, and the value of a digit string in a base.\<close>

fun position :: "'a \<Rightarrow> 'a list \<Rightarrow> nat" where
  "position x [] = 0"
| "position x (y # ys) = (if x = y then 0 else Suc (position x ys))"

definition digitValue :: "char \<Rightarrow> int" where
  "digitValue c = int (position c ''0123456789abcdef'')"

definition readNumber :: "int \<Rightarrow> string \<Rightarrow> int" where
  "readNumber base s = foldl (\<lambda>a c. a * base + digitValue c) 0 s"

definition isDigits :: "string \<Rightarrow> bool" where
  "isDigits s = list_all (\<lambda>c. c \<in> set ''0123456789'') s"

subsection \<open>External encoders\<close>

text \<open>
  The program hands its output to three library encoders that are not part of the
  repository: \<^verbatim>\<open>strconv.FormatFloat(float64(v), 'f', -1, 32)\<close> on a 32-bit float (given
  here by its bit pattern), \<^verbatim>\<open>encoding/xml\<close> and \<^verbatim>\<open>encoding/csv\<close>.  They are parameters
  of the model.  \<open>csvPartial\<close> is what has reached the file when the CSV writer is
  abandoned without \<^verbatim>\<open>Flush\<close> after the given records were written to it.
\<close>

datatype xmlnode = Element string "(string \<times> string) list" "xmlnode list" | CharData string

record lib =
  formatFloat32 :: "32 word \<Rightarrow> string"
  xmlEncode :: "xmlnode \<Rightarrow> byte list"
  csvEncode :: "string list list \<Rightarrow> byte list"
  csvPartial :: "string list list \<Rightarrow> byte list"

subsection \<open>The file system\<close>

text \<open>
  Directories are a set of paths, regular files a map from paths to contents.  Paths
  are the strings the program passes to \<^verbatim>\<open>os\<close>; the root and the working directory
  always exist.  Failures of the environment (permissions, full disk) are not modelled.
\<close>

record fs =
  dirs :: "string set"
  files :: "string \<rightharpoonup> byte list"

text \<open>\<^verbatim>\<open>os.Open\<close> followed by reads: the bytes of a regular file; reading a directory fails.\<close>

definition osOpen :: "fs \<Rightarrow> string \<Rightarrow> error + byte list" where
  "osOpen s p =
     (case files s p of
        Some bs \<Rightarrow> Inr bs
      | None \<Rightarrow> if p \<in> dirs s then Inl EISDIR else Inl ENOENT)"

text \<open>The directory part of a path: everything before its last separator.\<close>

definition parentDir :: "string \<Rightarrow> string" where
  "parentDir p = rev (drop 1 (dropWhile (\<lambda>c. c \<noteq> CHR ''/'') (rev p)))"

text \<open>All proper ancestors of a path, nearest first (the root itself is left out).\<close>

definition ancestors :: "string \<Rightarrow> string list" where
  "ancestors p = rev (map (\<lambda>i. take i p) (filter (\<lambda>i. p ! i = CHR ''/'') [1..<length p]))"

text \<open>
  \<^verbatim>\<open>os.MkdirAll\<close>: a path that is a directory already is success, one that is a regular
  file is \<^verbatim>\<open>ENOTDIR\<close>; otherwise the parent is ensured first and the directory made.  The
  list is the path followed by its ancestors, nearest first.
\<close>

fun mkdirChain :: "fs \<Rightarrow> string list \<Rightarrow> error + fs" where
  "mkdirChain s [] = Inr s"
| "mkdirChain s (p # ps) =
     (if p \<in> dirs s then Inr s
      else if files s p \<noteq> None then Inl ENOTDIR
      else (case mkdirChain s ps of
              Inl e \<Rightarrow> Inl e
            | Inr s' \<Rightarrow> if p = [] then Inl ENOENT else Inr (s'\<lparr>dirs := insert p (dirs s')\<rparr>)))"

definition MkdirAll :: "fs \<Rightarrow> string \<Rightarrow> error + fs" where
  "MkdirAll s p = mkdirChain s (p # ancestors p)"

text \<open>\<^verbatim>\<open>os.Create\<close>: the file is created empty, or truncated.\<close>

definition osCreate :: "fs \<Rightarrow> string \<Rightarrow> error + fs" where
  "osCreate s p =
     (if p = [] then Inl ENOENT
      else if p \<in> dirs s then Inl EISDIR
      else if parentDir p \<noteq> [] \<and> parentDir p \<notin> dirs s then
        (if files s (parentDir p) \<noteq> None then Inl ENOTDIR else Inl ENOENT)
      else Inr (s\<lparr>files := (files s)(p \<mapsto> [])\<rparr>))"

definition emptyFs :: fs where
  "emptyFs = \<lparr>dirs = {}, files = Map.empty\<rparr>"

definition writeFile :: "fs \<Rightarrow> string \<Rightarrow> byte list \<Rightarrow> fs" where
  "writeFile s p bs = s\<lparr>files := (files s)(p \<mapsto> bs)\<rparr>"

subsection \<open>Strings and paths (\<^verbatim>\<open>strings\<close>, \<^verbatim>\<open>path/filepath\<close> on a Unix system)\<close>

text \<open>\<^verbatim>\<open>strings.Split(s, "_")\<close>: one more part than there are separators.\<close>

fun splitOn :: "char \<Rightarrow> string \<Rightarrow> string list" where
  "splitOn c [] = [[]]"
| "splitOn c (x # xs) =
     (if x = c then [] # splitOn c xs
      else (case splitOn c xs of [] \<Rightarrow> [[x]] | y # ys \<Rightarrow> (x # y) # ys))"

text \<open>\<^verbatim>\<open>strings.Join(parts, sep)\<close>.\<close>

fun joinWith :: "string \<Rightarrow> string list \<Rightarrow> string" where
  "joinWith sep [] = []"
| "joinWith sep [x] = x"
| "joinWith sep (x # y # ys) = x @ sep @ joinWith sep (y # ys)"

text \<open>
  \<^verbatim>\<open>filepath.Clean\<close>: empty and \<^verbatim>\<open>.\<close> elements go, \<^verbatim>\<open>..\<close> removes the element before
  it (or stays, in front of a relative path), an empty result is \<^verbatim>\<open>.\<close>.  The elements
  kept so far are held in reverse.
\<close>

fun cleanParts :: "bool \<Rightarrow> string list \<Rightarrow> string list \<Rightarrow> string list" where
  "cleanParts rooted [] out = rev out"
| "cleanParts rooted (p # ps) out =
     (if p = [] \<or> p = ''.'' then cleanParts rooted ps out
      else if p = ''..'' then
        (case out of
           [] \<Rightarrow> cleanParts rooted ps (if rooted then [] else [''..''])
         | q # qs \<Rightarrow> cleanParts rooted ps (if q = ''..'' then p # out else qs))
      else cleanParts rooted ps (p # out))"

definition Clean :: "string \<Rightarrow> string" where
  "Clean p =
     (let rooted = (take 1 p = ''/'');
          body = joinWith ''/'' (cleanParts rooted (splitOn (CHR ''/'') p) []);
          q = (if rooted then CHR ''/'' # body else body)
      in if q = [] then ''.'' else q)"

text \<open>\<^verbatim>\<open>filepath.Join\<close> of two elements: leading empty elements are ignored.\<close>

definition Join :: "string \<Rightarrow> string \<Rightarrow> string" where
  "Join a b =
     (if a \<noteq> [] then Clean (a @ ''/'' @ b)
      else if b \<noteq> [] then Clean b
      else [])"

text \<open>\<^verbatim>\<open>filepath.Base\<close>: the last element, trailing separators removed first.\<close>

definition Base :: "string \<Rightarrow> string" where
  "Base p =
     (if p = [] then ''.''
      else (let q = rev (dropWhile (\<lambda>c. c = CHR ''/'') (rev p));
                b = rev (takeWhile (\<lambda>c. c \<noteq> CHR ''/'') (rev q))
            in if b = [] then ''/'' else b))"

subsection \<open>Timestamps (\<^verbatim>\<open>Timestamp\<close>, \<^verbatim>\<open>time\<close>)\<close>

text \<open>
  An instant is the number of nanoseconds since 1970-01-01T00:00:00Z.  \<^verbatim>\<open>GPS\<close> is
  1980-01-06T00:00:00Z.  \<^verbatim>\<open>Timestamp.Time\<close> converts the unsigned tick count to a
  \<^verbatim>\<open>time.Duration\<close>, a signed 64-bit integer, and adds it to \<^verbatim>\<open>GPS\<close>.
\<close>

definition GPS :: int where
  "GPS = 315964800 * 1000000000"

definition Time :: "64 word \<Rightarrow> int" where
  "Time t = GPS + sint t"

text \<open>
  The calendar computation of \<^verbatim>\<open>time.absDate\<close>, from a day number (days since
  1970-01-01; day 0 of the computation is 0001-01-01, which starts a cycle of 400 years
  as the library's own day 0 does): the 400-year, 100-year, 4-year and 1-year cycles are
  cut off in turn, then the month is estimated at 31 days each and adjusted.
\<close>

definition isLeap :: "int \<Rightarrow> bool" where
  "isLeap year = (year mod 4 = 0 \<and> (year mod 100 \<noteq> 0 \<or> year mod 400 = 0))"

definition daysBefore :: "int list" where
  "daysBefore = [0, 31, 59, 90, 120, 151, 181, 212, 243, 273, 304, 334, 365]"

text \<open>The year and the day within the year (from 0).\<close>

definition yearDay :: "int \<Rightarrow> int \<times> int" where
  "yearDay days =
     (let d0 = days + 719162;
          n400 = d0 div 146097;
          d1 = d0 - 146097 * n400;
          c = d1 div 36524;
          n100 = c - c div 4;
          d2 = d1 - 36524 * n100;
          n4 = d2 div 1461;
          d3 = d2 - 1461 * n4;
          k = d3 div 365;
          n1 = k - k div 4
      in (400 * n400 + 100 * n100 + 4 * n4 + n1 + 1, d3 - 365 * n1))"

text \<open>The month and the day of the month, from the year and the day within it.\<close>

definition monthDay :: "int \<Rightarrow> int \<Rightarrow> int \<times> int" where
  "monthDay year yday =
     (if isLeap year \<and> yday = 59 then (2, 29)
      else
        (let day = (if isLeap year \<and> yday > 59 then yday - 1 else yday);
             month = day div 31;
             end = daysBefore ! nat (month + 1)
         in if day \<ge> end then (month + 2, day - end + 1)
            else (month + 1, day - daysBefore ! nat month + 1)))"

definition civil :: "int \<Rightarrow> int \<times> int \<times> int" where
  "civil days = (case yearDay days of (year, yday) \<Rightarrow> (year, monthDay year yday))"

definition pad :: "nat \<Rightarrow> int \<Rightarrow> string" where
  "pad w n = zeroPad w (Itoa n)"

definition dateOf :: "int \<Rightarrow> int \<times> int \<times> int" where
  "dateOf t = civil (t div 1000000000 div 86400)"

definition secondOfDay :: "int \<Rightarrow> int" where
  "secondOfDay t = t div 1000000000 mod 86400"

text \<open>
  \<^verbatim>\<open>Format("20060102_150406")\<close>.  A layout is read against the reference time
  \<^verbatim>\<open>01/02 03:04:05PM '06\<close>: \<^verbatim>\<open>2006\<close> is the year, \<^verbatim>\<open>01\<close> the month, \<^verbatim>\<open>02\<close> the day, \<^verbatim>\<open>15\<close> the
  hour, \<^verbatim>\<open>04\<close> the minute, and \<^verbatim>\<open>06\<close> the year in two digits (the second would be \<^verbatim>\<open>05\<close>).
  So the last group of this layout is the year again, modulo 100, and the second is not
  written.
\<close>

definition formatCompact :: "int \<Rightarrow> string" where
  "formatCompact t =
     (let (y, m, d) = dateOf t; s = secondOfDay t
      in pad 4 y @ pad 2 m @ pad 2 d @ ''_'' @ pad 2 (s div 3600) @ pad 2 (s div 60 mod 60) @ pad 2 (y mod 100))"

text \<open>The fraction \<^verbatim>\<open>.999999999\<close>: nine digits with the trailing zeros removed, nothing at
  all for a whole second.\<close>

definition fraction :: "int \<Rightarrow> string" where
  "fraction ns =
     (if ns = 0 then []
      else CHR ''.'' # rev (dropWhile (\<lambda>c. c = CHR ''0'') (rev (pad 9 ns))))"

text \<open>\<^verbatim>\<open>Format("2006-01-02T15:04:05.999999999Z")\<close>.\<close>

definition formatPrecise :: "int \<Rightarrow> string" where
  "formatPrecise t =
     (let (y, m, d) = dateOf t; s = secondOfDay t
      in pad 4 y @ ''-'' @ pad 2 m @ ''-'' @ pad 2 d @ ''T'' @ pad 2 (s div 3600) @ '':''
         @ pad 2 (s div 60 mod 60) @ '':'' @ pad 2 (s mod 60) @ fraction (t mod 1000000000) @ ''Z'')"

text \<open>\<^verbatim>\<open>Timestamp.String\<close>.\<close>

definition TimestampString :: "64 word \<Rightarrow> string" where
  "TimestampString t = formatPrecise (Time t)"

subsection \<open>The packet metadata record (\<^verbatim>\<open>Metadata\<close>)\<close>

record metadata =
  Magic :: "8 word"
  Acquisition :: "64 word"
  Sequence :: "32 word"
  Auxiliary :: "64 word"
  Source :: "8 word"
  X :: "16 word"
  Y :: "16 word"
  Format :: "8 word"
  Drop :: "16 word"
  OffsetX :: "16 word"
  SizeX :: "16 word"
  OffsetY :: "16 word"
  SizeY :: "16 word"
  ScaleX :: "16 word"
  ScaleY :: "16 word"
  Ratio :: "8 word"
  UPI :: "byte list"

text \<open>The widths in bytes of the fields of \<^verbatim>\<open>Metadata\<close>, in the order of declaration;
  \<^verbatim>\<open>binary.Read\<close> reads their sum in one piece and decodes the fields one after another.\<close>

definition metadataWidths :: "nat list" where
  "metadataWidths = [1, 8, 4, 8, 1, 2, 2, 1, 2, 2, 2, 2, 2, 2, 2, 1, 32]"

definition metadataSize :: nat where
  "metadataSize = sum_list metadataWidths"

fun chop :: "nat list \<Rightarrow> 'a list \<Rightarrow> 'a list list" where
  "chop [] xs = []"
| "chop (w # ws) xs = take w xs # chop ws (drop w xs)"

definition decodeMetadata :: "byte list \<Rightarrow> metadata" where
  "decodeMetadata raw =
     (let f = chop metadataWidths raw in
      \<lparr>Magic = le_word (f ! 0), Acquisition = le_word (f ! 1), Sequence = le_word (f ! 2),
       Auxiliary = le_word (f ! 3), Source = le_word (f ! 4), X = le_word (f ! 5),
       Y = le_word (f ! 6), Format = le_word (f ! 7), Drop = le_word (f ! 8),
       OffsetX = le_word (f ! 9), SizeX = le_word (f ! 10), OffsetY = le_word (f ! 11),
       SizeY = le_word (f ! 12), ScaleX = le_word (f ! 13), ScaleY = le_word (f ! 14),
       Ratio = le_word (f ! 15), UPI = f ! 16\<rparr>)"

subsection \<open>The metadata document\<close>

text \<open>\<^verbatim>\<open>UPI.MarshalXML\<close>: the zero bytes at both ends are trimmed; the element is named
  \<^verbatim>\<open>upi\<close> whatever the start element handed in.\<close>

definition trimZeros :: "byte list \<Rightarrow> byte list" where
  "trimZeros u = rev (dropWhile (\<lambda>b. b = 0) (rev (dropWhile (\<lambda>b. b = 0) u)))"

definition UPI_MarshalXML :: "byte list \<Rightarrow> xmlnode" where
  "UPI_MarshalXML u = Element ''upi'' [] [CharData (string_of (trimZeros u))]"

text \<open>\<^verbatim>\<open>Timestamp.MarshalXML\<close>: the element is named \<^verbatim>\<open>acquisition-time\<close>.\<close>

definition Timestamp_MarshalXML :: "64 word \<Rightarrow> xmlnode" where
  "Timestamp_MarshalXML t = Element ''acquisition-time'' [] [CharData (TimestampString t)]"

definition field :: "string \<Rightarrow> int \<Rightarrow> xmlnode" where
  "field name v = Element name [] [CharData (Itoa v)]"

text \<open>
  The value \<^verbatim>\<open>elem\<close> of \<^verbatim>\<open>processMeta\<close> as \<^verbatim>\<open>encoding/xml\<close> walks it: the root takes its
  name from \<^verbatim>\<open>XMLName\<close>, the three fields tagged \<^verbatim>\<open>attr\<close> are attributes, the fields of
  the embedded \<^verbatim>\<open>Metadata\<close> follow in order, \<^verbatim>\<open>Magic\<close> (tagged \<^verbatim>\<open>-\<close>) left out, and a
  field whose type has a \<^verbatim>\<open>MarshalXML\<close> method is written by that method.
\<close>

definition metadataElement :: "metadata \<Rightarrow> 64 word \<Rightarrow> 32 word \<Rightarrow> string \<Rightarrow> xmlnode" where
  "metadataElement info when seq source =
     Element ''metadata''
       [(''svs-timestamp'', TimestampString when),
        (''svs-sequence'', Itoa (uint seq)),
        (''svs-file'', Base source)]
       [Timestamp_MarshalXML (Acquisition info),
        field ''originator-seq-no'' (uint (Sequence info)),
        field ''auxiliary-time'' (uint (Auxiliary info)),
        field ''originator-id'' (uint (Source info)),
        field ''source-x-size'' (uint (X info)),
        field ''source-y-size'' (uint (Y info)),
        field ''format'' (uint (Format info)),
        field ''fdrp'' (uint (Drop info)),
        field ''roi-x-offset'' (uint (OffsetX info)),
        field ''roi-x-size'' (uint (SizeX info)),
        field ''roi-y-offset'' (uint (OffsetY info)),
        field ''roi-y-size'' (uint (SizeY info)),
        field ''scale-x-size'' (uint (ScaleX info)),
        field ''scale-y-size'' (uint (ScaleY info)),
        field ''scale-far'' (uint (Ratio info)),
        UPI_MarshalXML (UPI info)]"

subsection \<open>The sample block encoder (\<^verbatim>\<open>processData\<close>)\<close>

text \<open>The header loop: \<open>n\<close> scale words, each read as a little-endian \<^verbatim>\<open>uint16\<close>.\<close>

fun readScales :: "nat \<Rightarrow> byte list \<Rightarrow> error + (string list \<times> byte list)" where
  "readScales 0 r = Inr ([], r)"
| "readScales (Suc n) r =
     (case binaryRead 2 r of
        Inl e \<Rightarrow> Inl e
      | Inr (raw, r') \<Rightarrow>
          (case readScales n r' of
             Inl e \<Rightarrow> Inl e
           | Inr (vs, r'') \<Rightarrow> Inr ((''g2(t, '' @ Itoa (le_int raw) @ '')'') # vs, r'')))"

text \<open>The inner loop of a data row: \<open>n\<close> values, each read as a little-endian \<^verbatim>\<open>float32\<close>.\<close>

fun readFloats :: "nat \<Rightarrow> byte list \<Rightarrow> error + (32 word list \<times> byte list)" where
  "readFloats 0 r = Inr ([], r)"
| "readFloats (Suc n) r =
     (case binaryRead 4 r of
        Inl e \<Rightarrow> Inl e
      | Inr (raw, r') \<Rightarrow>
          (case readFloats n r' of
             Inl e \<Rightarrow> Inl e
           | Inr (vs, r'') \<Rightarrow> Inr (le_word raw # vs, r'')))"

text \<open>
  The row loop \<^verbatim>\<open>for i := 0; rs.Len() > 0; i++\<close>.  It returns the error of a failed read
  (if any) together with the records written so far.  The loop has no bound of its own:
  with no column it consumes nothing, so it is a partial function.  The counter \<open>i\<close> is a
  Go \<^verbatim>\<open>int\<close>; it is a natural number here, since it cannot pass the number of bytes of
  the buffer when a row consumes any.
\<close>

partial_function (option) rowLoop ::
  "lib \<Rightarrow> nat \<Rightarrow> nat \<Rightarrow> byte list \<Rightarrow> string list list \<Rightarrow> (error option \<times> string list list) option"
where
  "rowLoop L n i r acc =
     (if r = [] then Some (None, acc)
      else (case readFloats n r of
              Inl e \<Rightarrow> Some (Some e, acc)
            | Inr (vs, r') \<Rightarrow> rowLoop L n (Suc i) r' (acc @ [Itoa (int i) # map (formatFloat32 L) vs])))"

declare rowLoop.simps [code]

text \<open>
  \<^verbatim>\<open>processData\<close>: creates the CSV file, reads the column count, writes the header
  record and the data records, and flushes.  The result is the error (if any) and the
  new file system, or \<open>None\<close> when the row loop does not return.
\<close>

definition processData :: "lib \<Rightarrow> fs \<Rightarrow> byte list \<Rightarrow> string \<Rightarrow> (error option \<times> fs) option" where
  "processData L s r file =
     (case osCreate s file of
        Inl e \<Rightarrow> Some (Some e, s)
      | Inr s1 \<Rightarrow>
          (case r of
             [] \<Rightarrow> Some (Some EOF, s1)
           | b # rs \<Rightarrow>
               (case readScales (unat b) rs of
                  Inl e \<Rightarrow> Some (Some e, s1)
                | Inr (hs, rs') \<Rightarrow>
                    (case rowLoop L (unat b) 0 rs' [''t'' # hs] of
                       None \<Rightarrow> None
                     | Some (Some e, recs) \<Rightarrow> Some (Some e, writeFile s1 file (csvPartial L recs))
                     | Some (None, recs) \<Rightarrow> Some (None, writeFile s1 file (csvEncode L recs))))))"

text \<open>The names of the elements directly under an element, in order.\<close>

fun elementNames :: "xmlnode \<Rightarrow> string list" where
  "elementNames (CharData t) = []"
| "elementNames (Element n as ks) = concat (map (\<lambda>k. case k of Element c _ _ \<Rightarrow> [c] | CharData _ \<Rightarrow> []) ks)"

subsection \<open>The introductory record (\<^verbatim>\<open>processIntro\<close>)\<close>

text \<open>The rest of the input is copied as it is to \<^verbatim>\<open><upi>.ini\<close>; the name of the file
  created is returned.\<close>

definition processIntro :: "fs \<Rightarrow> byte list \<Rightarrow> string \<Rightarrow> string \<Rightarrow> (string \<times> error option) \<times> fs" where
  "processIntro s r datadir upi =
     (let path = Join datadir (upi @ ''.ini'') in
      case osCreate s path of
        Inl e \<Rightarrow> (([], Some e), s)
      | Inr s1 \<Rightarrow> ((path, None), writeFile s1 path r))"

subsection \<open>Metadata, shard directory and file name (\<^verbatim>\<open>processMeta\<close>)\<close>

text \<open>Go's integer division truncates towards zero.\<close>

definition quo :: "int \<Rightarrow> int \<Rightarrow> int" where
  "quo a b = sgn a * sgn b * (\<bar>a\<bar> div \<bar>b\<bar>)"

text \<open>The variable \<^verbatim>\<open>file\<close>:
  \<^verbatim>\<open>fmt.Sprintf("%04x_%s_%s_%06d.csv", info.Source, upi, acqt.Format("20060102_150406"), info.Sequence)\<close>.\<close>

definition csvName :: "metadata \<Rightarrow> string \<Rightarrow> string" where
  "csvName info upi =
     fmt04x (Source info) @ ''_'' @ upi @ ''_'' @ formatCompact (Time (Acquisition info)) @ ''_''
       @ fmt06d (uint (Sequence info)) @ ''.csv''"

text \<open>
  \<^verbatim>\<open>processMeta\<close> returns the file name, the shard index and the error, together with the
  new file system and what is left of the reader.  A failed read gives the index \<open>-1\<close>;
  the division panics on a zero divisor (\<^verbatim>\<open>main\<close> never passes one).
\<close>

definition processMeta ::
  "lib \<Rightarrow> fs \<Rightarrow> byte list \<Rightarrow> string \<Rightarrow> string \<Rightarrow> string \<Rightarrow> int \<Rightarrow> 32 word \<Rightarrow> 64 word
     \<Rightarrow> ((string \<times> int \<times> error option) \<times> fs \<times> byte list) exec" where
  "processMeta L s r datadir upi source per seq when =
     (case binaryRead metadataSize r of
        Inl e \<Rightarrow> Return (([], - 1, Some e), s, [])
      | Inr (raw, r') \<Rightarrow>
          (let info = decodeMetadata raw; file = csvName info upi in
           if per = 0 then Panic IntegerDivideByZero
           else
             (let subdir = quo (uint (Sequence info)) per;
                  dir = Join datadir (fmt06d subdir)
              in case MkdirAll s dir of
                   Inl e \<Rightarrow> Return (([], subdir, Some e), s, r')
                 | Inr s1 \<Rightarrow>
                     (case osCreate s1 (Join dir file @ ''.xml'') of
                        Inl e \<Rightarrow> Return (([], subdir, Some e), s1, r')
                      | Inr s2 \<Rightarrow>
                          Return ((file, subdir, None),
                                  writeFile s2 (Join dir file @ ''.xml'')
                                    (xmlEncode L (metadataElement info when seq source)),
                                  r')))))"

subsection \<open>One input file (\<^verbatim>\<open>processFile\<close>)\<close>

definition magic :: "byte list" where
  "magic = bytes_of ''SVS ''"

text \<open>The expression \<^verbatim>\<open>parts[1:len(parts)-5]\<close>: a slice expression panics unless
  \<open>low \<le> high\<close>, that is unless there are six parts at least.\<close>

definition middleParts :: "string list \<Rightarrow> string list exec" where
  "middleParts parts =
     (if int (length parts) - 5 < 1 then Panic SliceBoundsOutOfRange
      else Return (take (length parts - 5 - 1) (drop 1 parts)))"

text \<open>
  \<^verbatim>\<open>processFile\<close> returns the name of the file produced and the error, or panics; the
  file system is threaded through.  The whole result is \<open>None\<close> when the row loop of
  \<^verbatim>\<open>processData\<close> does not return.
\<close>

definition processFile ::
  "lib \<Rightarrow> fs \<Rightarrow> string \<Rightarrow> string \<Rightarrow> int \<Rightarrow> ((string \<times> error option) exec \<times> fs) option" where
  "processFile L s file datadir per =
     (case osOpen s file of
        Inl e \<Rightarrow> Some (Return ([], Some e), s)
      | Inr r \<Rightarrow>
          (case binaryRead 16 r of
             Inl e \<Rightarrow> Some (Return ([], Some e), s)
           | Inr (hdr, r1) \<Rightarrow>
               (let FCC = take 4 hdr;
                    Seq = (be_word (take 4 (drop 4 hdr)) :: 32 word);
                    When = (be_word (drop 8 hdr) :: 64 word)
                in if FCC \<noteq> magic then Some (Return ([], None), s)
                   else
                     (case middleParts (splitOn (CHR ''_'') (Base file)) of
                        Panic p \<Rightarrow> Some (Panic p, s)
                      | Return mid \<Rightarrow>
                          (let upi = joinWith ''_'' mid; dir = Join datadir upi in
                           case MkdirAll s dir of
                             Inl e \<Rightarrow> Some (Return ([], Some e), s)
                           | Inr s1 \<Rightarrow>
                               if Seq = 1 then
                                 (case processIntro s1 r1 dir upi of (res, s2) \<Rightarrow> Some (Return res, s2))
                               else
                                 (case processMeta L s1 r1 dir upi file per Seq When of
                                    Panic p \<Rightarrow> Some (Panic p, s1)
                                  | Return ((name, shard, Some e), s2, r2) \<Rightarrow>
                                      Some (Return (name, Some e), s2)
                                  | Return ((name, shard, None), s2, r2) \<Rightarrow>
                                      (let out = Join (Join dir (fmt06d shard)) name in
                                       case processData L s2 r2 out of
                                         None \<Rightarrow> None
                                       | Some (err, s3) \<Rightarrow> Some (Return (out, err), s3))))))))"

subsection \<open>The run (\<^verbatim>\<open>main\<close>)\<close>

definition DefaultWorkers :: int where
  "DefaultWorkers = 4"

definition DefaultFiles :: int where
  "DefaultFiles = 512"

text \<open>The two flags as \<^verbatim>\<open>main\<close> uses them: a value that is not positive is replaced by
  the default.\<close>

definition effectivePer :: "int \<Rightarrow> int" where
  "effectivePer per = (if per \<le> 0 then DefaultFiles else per)"

definition effectiveWorkers :: "int \<Rightarrow> int" where
  "effectiveWorkers workers = (if workers \<le> 0 then DefaultWorkers else workers)"

text \<open>
  The loop of \<^verbatim>\<open>main\<close> over the weighted semaphore, as a transition system.  \<open>pending\<close>
  are the paths the channel has still to deliver, \<open>running\<close> the goroutines started and
  not finished, \<open>finished\<close> the paths whose goroutine has returned (with what
  \<^verbatim>\<open>processFile\<close> returned), \<open>held\<close> the units of the semaphore that are taken.
  \<^verbatim>\<open>Acquire(ctx, n)\<close> goes through only when \<open>n\<close> units are free; the context is never
  cancelled, so it does not fail.  \<open>outcome f x\<close> says that the call of \<^verbatim>\<open>processFile\<close> on
  the path \<open>f\<close> can end with \<open>x\<close>: a goroutine whose call returns gives its unit back and
  is finished; a goroutine whose call panics ends the process there and then, since
  nothing recovers the panic, whatever is pending or running at that moment.
\<close>

datatype phase = Feeding | Returned | Aborted

record run =
  pending :: "string list"
  running :: "string list"
  finished :: "(string \<times> string \<times> error option) list"
  held :: nat
  phase :: phase

definition start :: "string list \<Rightarrow> run" where
  "start paths = \<lparr>pending = paths, running = [], finished = [], held = 0, phase = Feeding\<rparr>"

inductive step ::
  "(string \<Rightarrow> (string \<times> error option) exec \<Rightarrow> bool) \<Rightarrow> nat \<Rightarrow> run \<Rightarrow> run \<Rightarrow> bool"
  for outcome :: "string \<Rightarrow> (string \<times> error option) exec \<Rightarrow> bool" and w :: nat where
  admit:
    "phase s = Feeding \<Longrightarrow> pending s = f # rest \<Longrightarrow> held s + 1 \<le> w \<Longrightarrow>
     step outcome w s (s\<lparr>pending := rest, running := f # running s, held := held s + 1\<rparr>)"
| complete:
    "phase s = Feeding \<Longrightarrow> f \<in> set (running s) \<Longrightarrow> outcome f (Return res) \<Longrightarrow>
     step outcome w s (s\<lparr>running := remove1 f (running s), finished := (f, res) # finished s,
                         held := held s - 1\<rparr>)"
| panicked:
    "phase s = Feeding \<Longrightarrow> f \<in> set (running s) \<Longrightarrow> outcome f (Panic p) \<Longrightarrow>
     step outcome w s (s\<lparr>phase := Aborted\<rparr>)"
| drain:
    "phase s = Feeding \<Longrightarrow> pending s = [] \<Longrightarrow> held s + w \<le> w \<Longrightarrow>
     step outcome w s (s\<lparr>held := held s + w, phase := Returned\<rparr>)"

inductive reachable ::
  "(string \<Rightarrow> (string \<times> error option) exec \<Rightarrow> bool) \<Rightarrow> nat \<Rightarrow> string list \<Rightarrow> run \<Rightarrow> bool"
  for outcome :: "string \<Rightarrow> (string \<times> error option) exec \<Rightarrow> bool" and w :: nat
    and paths :: "string list" where
  initial: "reachable outcome w paths (start paths)"
| further: "reachable outcome w paths s \<Longrightarrow> step outcome w s s' \<Longrightarrow> reachable outcome w paths s'"

text \<open>The bookkeeping of a run: no more pipelines than units, every path pending, running
  or finished, one unit held for each running pipeline while \<^verbatim>\<open>main\<close> is in its loop, and
  nothing pending or running once \<^verbatim>\<open>main\<close> has returned.\<close>

definition accounted :: "nat \<Rightarrow> string list \<Rightarrow> run \<Rightarrow> bool" where
  "accounted w paths s =
     (length (running s) \<le> w
      \<and> mset (pending s) + mset (running s) + mset (map fst (finished s)) = mset paths
      \<and> (phase s = Feeding \<longrightarrow> held s = length (running s))
      \<and> (phase s = Returned \<longrightarrow> pending s = [] \<and> running s = []))"

subsection \<open>The record on the wire\<close>

text \<open>A value in \<open>k\<close> bytes, least significant byte first.\<close>

fun le_bytes :: "nat \<Rightarrow> int \<Rightarrow> byte list" where
  "le_bytes 0 v = []"
| "le_bytes (Suc k) v = word_of_int v # le_bytes k (v div 256)"

text \<open>
  The bytes of a metadata record as the decoder expects them: every field of
  \<^verbatim>\<open>Metadata\<close> in the order of declaration, \<^verbatim>\<open>Magic\<close> first, each in its width, little
  endian, nothing in between.  The program only ever reads this layout.
\<close>

definition encodeMetadata :: "metadata \<Rightarrow> byte list" where
  "encodeMetadata m =
     le_bytes 1 (uint (Magic m)) @ le_bytes 8 (uint (Acquisition m)) @ le_bytes 4 (uint (Sequence m))
     @ le_bytes 8 (uint (Auxiliary m)) @ le_bytes 1 (uint (Source m)) @ le_bytes 2 (uint (X m))
     @ le_bytes 2 (uint (Y m)) @ le_bytes 1 (uint (Format m)) @ le_bytes 2 (uint (Drop m))
     @ le_bytes 2 (uint (OffsetX m)) @ le_bytes 2 (uint (SizeX m)) @ le_bytes 2 (uint (OffsetY m))
     @ le_bytes 2 (uint (SizeY m)) @ le_bytes 2 (uint (ScaleX m)) @ le_bytes 2 (uint (ScaleY m))
     @ le_bytes 1 (uint (Ratio m)) @ UPI m"

text \<open>
  The layout as the specification words it: the record starts with the acquisition
  timestamp, and no byte comes before it.
\<close>

definition specEncodeMetadata :: "metadata \<Rightarrow> byte list" where
  "specEncodeMetadata m =
     le_bytes 8 (uint (Acquisition m)) @ le_bytes 4 (uint (Sequence m))
     @ le_bytes 8 (uint (Auxiliary m)) @ le_bytes 1 (uint (Source m)) @ le_bytes 2 (uint (X m))
     @ le_bytes 2 (uint (Y m)) @ le_bytes 1 (uint (Format m)) @ le_bytes 2 (uint (Drop m))
     @ le_bytes 2 (uint (OffsetX m)) @ le_bytes 2 (uint (SizeX m)) @ le_bytes 2 (uint (OffsetY m))
     @ le_bytes 2 (uint (SizeY m)) @ le_bytes 2 (uint (ScaleX m)) @ le_bytes 2 (uint (ScaleY m))
     @ le_bytes 1 (uint (Ratio m)) @ UPI m"

subsection \<open>Sample data\<close>

text \<open>
  A data record in the manner of the example of the specification: originator 10,
  identifier \<^verbatim>\<open>FOO\<close>, a given acquisition time and originator sequence number, every
  other number zero; a sample block of two columns with scales 5 and 9 and the one row
  (1.5, -2.25); the envelope with a given sequence counter and timestamp zero.
\<close>

definition sampleMetadata :: "64 word \<Rightarrow> 32 word \<Rightarrow> metadata" where
  "sampleMetadata acq seq =
     \<lparr>Magic = 0, Acquisition = acq, Sequence = seq, Auxiliary = 0, Source = 10, X = 0, Y = 0,
      Format = 0, Drop = 0, OffsetX = 0, SizeX = 0, OffsetY = 0, SizeY = 0, ScaleX = 0,
      ScaleY = 0, Ratio = 0, UPI = bytes_of ''FOO'' @ replicate 29 0\<rparr>"

definition sampleBlock :: "byte list" where
  "sampleBlock = [2, 5, 0, 9, 0, 0, 0, 192, 63, 0, 0, 16, 192]"

definition envelope :: "32 word \<Rightarrow> byte list" where
  "envelope seq = magic @ rev (le_bytes 4 (uint seq)) @ replicate 8 0"

definition oneFile :: "string \<Rightarrow> byte list \<Rightarrow> fs" where
  "oneFile p bs = \<lparr>dirs = {}, files = [p \<mapsto> bs]\<rparr>"



text \<open>A file system that holds one introductory record with the payload 7, 8, 9.\<close>

definition introFs :: fs where
  "introFs = oneFile ''/in/a_FOO_1_2_3_4_5'' (envelope 1 @ [7, 8, 9])"

text \<open>What \<^verbatim>\<open>processFile\<close> returned, the file system left aside.\<close>

definition returned :: "('a \<times> fs) option \<Rightarrow> 'a option" where
  "returned x = map_option fst x"


text \<open>What the goroutine of a path does in a run that found the file system \<open>s\<close>: the
  call \<^verbatim>\<open>processFile(f, *datadir, *per)\<close> returns a value or panics.\<close>

definition pipeline ::
  "lib \<Rightarrow> fs \<Rightarrow> string \<Rightarrow> int \<Rightarrow> string \<Rightarrow> (string \<times> error option) exec \<Rightarrow> bool" where
  "pipeline L s datadir per f x = (returned (processFile L s f datadir per) = Some x)"

text \<open>A file system with three data records of the same content; the name of the first
  has two parts only.\<close>

definition threeFiles :: fs where
  "threeFiles = \<lparr>dirs = {},
      files = [''a_b.dat'' \<mapsto> envelope 2 @ encodeMetadata (sampleMetadata 0 7) @ sampleBlock,
               ''/in/a_FOO_1_2_3_4_5'' \<mapsto> envelope 3 @ encodeMetadata (sampleMetadata 0 8) @ sampleBlock,
               ''/in/b_FOO_1_2_3_4_5'' \<mapsto> envelope 4 @ encodeMetadata (sampleMetadata 0 9) @ sampleBlock]\<rparr>"

text \<open>The shard index \<^verbatim>\<open>processMeta\<close> returned.\<close>

definition shardIndex :: "((string \<times> int \<times> error option) \<times> fs \<times> byte list) exec \<Rightarrow> int option" where
  "shardIndex x = (case x of Panic p \<Rightarrow> None | Return ((name, shard, err), rest) \<Rightarrow> Some shard)"

subsection \<open>A plain instance of the encoders\<close>

text \<open>
  For evaluating the model on examples: floats are shown by their bit pattern in
  hexadecimal, XML is written without indentation or escaping, CSV without quoting, and
  an abandoned CSV writer has passed nothing on to the file (its buffer holds 4096 bytes).
\<close>

fun renderXml :: "xmlnode \<Rightarrow> string" where
  "renderXml (CharData t) = t"
| "renderXml (Element n as ks) =
     ''<'' @ n @ concat (map (\<lambda>(k, v). '' '' @ k @ ''=\"'' @ v @ ''\"'') as) @ ''>''
       @ concat (map renderXml ks) @ ''</'' @ n @ ''>''"

definition plainLib :: lib where
  "plainLib =
     \<lparr>formatFloat32 = (\<lambda>w. ''0x'' @ digits 16 (uint w)),
      xmlEncode = (\<lambda>x. bytes_of (renderXml x)),
      csvEncode = (\<lambda>recs. bytes_of (concat (map (\<lambda>r. joinWith '','' r @ [CHR 0x0A]) recs))),
      csvPartial = (\<lambda>recs. [])\<rparr>"

text \<open>What \<^verbatim>\<open>processMeta\<close> returned, the file system left aside.\<close>

definition metaResult ::
  "((string \<times> int \<times> error option) \<times> fs \<times> byte list) exec \<Rightarrow> (string \<times> int \<times> error option \<times> byte list) option" where
  "metaResult x = (case x of Panic p \<Rightarrow> None | Return ((name, shard, err), s, r) \<Rightarrow> Some (name, shard, err, r))"

section \<open>Properties\<close>

subsection \<open>Digits\<close>

lemma div_less_bound:
  assumes "0 < (b::int)" and "n < b * m"
  shows "n div b < m"
proof (rule ccontr)
  assume "\<not> n div b < m"
  then have "m \<le> n div b" by simp
  with assms(1) have "b * m \<le> b * (n div b)" by (simp add: mult_left_mono)
  moreover have "b * (n div b) \<le> n"
    using mult_div_mod_eq [of b n] pos_mod_sign [of b n] assms(1) by linarith
  ultimately show False using assms(2) by linarith
qed

lemma digit_in_table:
  assumes "0 \<le> d" and "d < b" and "b \<le> 16"
  shows "digit d \<in> set (take (nat b) ''0123456789abcdef'')"
proof -
  from assms have "nat d < length (take (nat b) ''0123456789abcdef'')" by simp
  then have "take (nat b) ''0123456789abcdef'' ! nat d \<in> set (take (nat b) ''0123456789abcdef'')"
    by (rule nth_mem)
  moreover from assms have "take (nat b) ''0123456789abcdef'' ! nat d = ''0123456789abcdef'' ! nat d"
    by simp
  ultimately show ?thesis by (simp add: digit_def)
qed

lemma digitValue_digit:
  assumes "0 \<le> d" and "d < 16"
  shows "digitValue (digit d) = d"
proof -
  from assms have "d = 0 \<or> d = 1 \<or> d = 2 \<or> d = 3 \<or> d = 4 \<or> d = 5 \<or> d = 6 \<or> d = 7 \<or> d = 8
      \<or> d = 9 \<or> d = 10 \<or> d = 11 \<or> d = 12 \<or> d = 13 \<or> d = 14 \<or> d = 15"
    by arith
  then show ?thesis
    by (elim disjE) (simp_all add: digitValue_def digit_def)
qed

lemma digits_set:
  assumes "2 \<le> b" and "b \<le> 16" and "0 \<le> n"
  shows "set (digits b n) \<subseteq> set (take (nat b) ''0123456789abcdef'')"
  using assms
proof (induction b n rule: digits.induct)
  case (1 base n)
  show ?case
  proof (cases "n < base")
    case True
    with 1 show ?thesis
      by (subst digits.simps) (simp add: digit_in_table)
  next
    case False
    with 1 have "set (digits base (n div base)) \<subseteq> set (take (nat base) ''0123456789abcdef'')"
      by (simp add: pos_imp_zdiv_nonneg_iff)
    moreover from 1 have "digit (n mod base) \<in> set (take (nat base) ''0123456789abcdef'')"
      by (intro digit_in_table) simp_all
    ultimately show ?thesis using False 1
      by (subst digits.simps) simp
  qed
qed

lemma digits_length:
  assumes "2 \<le> b" and "0 \<le> n" and "n < b ^ k" and "0 < k"
  shows "length (digits b n) \<le> k"
  using assms
proof (induction b n arbitrary: k rule: digits.induct)
  case (1 base n)
  show ?case
  proof (cases "n < base")
    case True
    with 1 show ?thesis
      by (subst digits.simps) simp
  next
    case False
    obtain j where k: "k = Suc j" using 1(5) by (cases k) auto
    have j: "0 < j"
    proof (rule ccontr)
      assume "\<not> 0 < j"
      with k 1(4) False show False by simp
    qed
    from 1(4) k have "n < base * base ^ j" by simp
    with 1(2) have "n div base < base ^ j"
      by (intro div_less_bound) simp_all
    moreover from 1(2,3) have "0 \<le> n div base"
      by (simp add: pos_imp_zdiv_nonneg_iff)
    ultimately have "length (digits base (n div base)) \<le> j"
      using 1(1) [of j] False 1(2) j by simp
    with False 1(2) k show ?thesis
      by (subst digits.simps) simp
  qed
qed

lemma readNumber_snoc: "readNumber b (s @ [c]) = readNumber b s * b + digitValue c"
  by (simp add: readNumber_def)

lemma readNumber_digits:
  assumes "2 \<le> b" and "b \<le> 16" and "0 \<le> n"
  shows "readNumber b (digits b n) = n"
  using assms
proof (induction b n rule: digits.induct)
  case (1 base n)
  show ?case
  proof (cases "n < base")
    case True
    with 1 show ?thesis
      by (subst digits.simps) (simp add: readNumber_def digitValue_digit)
  next
    case False
    from 1 False have "readNumber base (digits base (n div base)) = n div base"
      by (simp add: pos_imp_zdiv_nonneg_iff)
    moreover have "digitValue (digit (n mod base)) = n mod base"
    proof (rule digitValue_digit)
      show "0 \<le> n mod base" using 1(2) by simp
      show "n mod base < 16" using pos_mod_bound [of base n] 1(2,3) by linarith
    qed
    ultimately show ?thesis using False 1(2)
      by (subst digits.simps) (simp add: readNumber_snoc)
  qed
qed

lemma readNumber_zero: "readNumber b (replicate k (CHR ''0'') @ s) = readNumber b s"
  by (induction k) (simp_all add: readNumber_def digitValue_def)

lemma readNumber_zeroPad: "readNumber b (zeroPad w s) = readNumber b s"
  by (simp add: zeroPad_def readNumber_zero)

lemma length_zeroPad: "length (zeroPad w s) = max w (length s)"
  by (simp add: zeroPad_def)

lemma set_zeroPad: "set (zeroPad w s) \<subseteq> insert (CHR ''0'') (set s)"
  by (auto simp: zeroPad_def)

subsection \<open>The calendar\<close>

lemma div_bounds:
  assumes "0 < (b::int)"
  shows "b * (d div b) \<le> d \<and> d < b * (d div b) + b"
  using mult_div_mod_eq [of b d] pos_mod_sign [of b d] pos_mod_bound [of b d] assms by linarith

lemma cut400: "0 \<le> (d::int) - 146097 * (d div 146097) \<and> d - 146097 * (d div 146097) < 146097"
  using div_bounds [of 146097 d] by linarith

lemma cut100:
  assumes "0 \<le> (d::int)" and "d < 146097"
  shows "0 \<le> d div 36524 - d div 36524 div 4 \<and> d div 36524 - d div 36524 div 4 \<le> 3
         \<and> 0 \<le> d - 36524 * (d div 36524 - d div 36524 div 4)
         \<and> d - 36524 * (d div 36524 - d div 36524 div 4) \<le> 36524"
proof -
  define q where "q = d div 36524"
  have b: "36524 * q \<le> d \<and> d < 36524 * q + 36524"
    unfolding q_def using div_bounds [of 36524 d] by simp
  with assms have "q = 0 \<or> q = 1 \<or> q = 2 \<or> q = 3 \<or> q = 4"
    by linarith
  then show ?thesis
    unfolding q_def [symmetric] using b assms by (elim disjE) simp_all
qed

lemma cut4:
  assumes "0 \<le> (d::int)" and "d \<le> 36524"
  shows "0 \<le> d div 1461 \<and> d div 1461 \<le> 24 \<and> 0 \<le> d - 1461 * (d div 1461) \<and> d - 1461 * (d div 1461) \<le> 1460"
  using div_bounds [of 1461 d] assms by linarith

lemma cut1:
  assumes "0 \<le> (d::int)" and "d \<le> 1460"
  shows "0 \<le> d div 365 - d div 365 div 4 \<and> d div 365 - d div 365 div 4 \<le> 3
         \<and> 0 \<le> d - 365 * (d div 365 - d div 365 div 4)
         \<and> d - 365 * (d div 365 - d div 365 div 4) \<le> 365"
proof -
  define q where "q = d div 365"
  have b: "365 * q \<le> d \<and> d < 365 * q + 365"
    unfolding q_def using div_bounds [of 365 d] by simp
  with assms have "q = 0 \<or> q = 1 \<or> q = 2 \<or> q = 3 \<or> q = 4"
    by linarith
  then show ?thesis
    unfolding q_def [symmetric] using b assms by (elim disjE) simp_all
qed

lemma yearDay_range:
  assumes "yearDay days = (year, yday)"
  shows "0 \<le> yday \<and> yday \<le> 365
         \<and> 400 * ((days + 719162) div 146097) + 1 \<le> year
         \<and> year \<le> 400 * ((days + 719162) div 146097) + 400"
proof -
  define d0 where "d0 = days + 719162"
  define n400 where "n400 = d0 div 146097"
  define d1 where "d1 = d0 - 146097 * n400"
  define n100 where "n100 = d1 div 36524 - d1 div 36524 div 4"
  define d2 where "d2 = d1 - 36524 * n100"
  define n4 where "n4 = d2 div 1461"
  define d3 where "d3 = d2 - 1461 * n4"
  define n1 where "n1 = d3 div 365 - d3 div 365 div 4"
  have "yearDay days = (400 * n400 + 100 * n100 + 4 * n4 + n1 + 1, d3 - 365 * n1)"
    unfolding yearDay_def Let_def n1_def d3_def n4_def d2_def n100_def d1_def n400_def d0_def
    by (rule refl)
  with assms have y: "year = 400 * n400 + 100 * n100 + 4 * n4 + n1 + 1" and yd: "yday = d3 - 365 * n1"
    by simp_all
  have a1: "0 \<le> d1 \<and> d1 < 146097"
    unfolding d1_def n400_def by (rule cut400)
  then have a2: "0 \<le> n100 \<and> n100 \<le> 3 \<and> 0 \<le> d2 \<and> d2 \<le> 36524"
    unfolding d2_def n100_def using cut100 [of d1] by simp
  then have a3: "0 \<le> n4 \<and> n4 \<le> 24 \<and> 0 \<le> d3 \<and> d3 \<le> 1460"
    unfolding d3_def n4_def using cut4 [of d2] by simp
  then have a4: "0 \<le> n1 \<and> n1 \<le> 3 \<and> 0 \<le> d3 - 365 * n1 \<and> d3 - 365 * n1 \<le> 365"
    unfolding n1_def using cut1 [of d3] by simp
  from a2 a3 a4 y yd show ?thesis
    unfolding n400_def d0_def by linarith
qed

lemma monthDay_range:
  assumes "0 \<le> yday" and "yday \<le> 365" and "monthDay year yday = (month, day)"
  shows "1 \<le> month \<and> month \<le> 13 \<and> 1 \<le> day \<and> day \<le> 31"
proof (cases "isLeap year \<and> yday = 59")
  case True
  with assms(3) show ?thesis by (simp add: monthDay_def)
next
  case False
  define d where "d = (if isLeap year \<and> yday > 59 then yday - 1 else yday)"
  define m where "m = d div 31"
  have d: "0 \<le> d \<and> d \<le> 365" using assms(1,2) by (simp add: d_def)
  have b: "31 * m \<le> d \<and> d < 31 * m + 31"
    unfolding m_def using div_bounds [of 31 d] by simp
  with d have "0 \<le> m \<and> m \<le> 11"
    by linarith
  then have "m \<in> set [0..11]" by simp
  then have m: "m = 0 \<or> m = 1 \<or> m = 2 \<or> m = 3 \<or> m = 4 \<or> m = 5 \<or> m = 6 \<or> m = 7 \<or> m = 8
      \<or> m = 9 \<or> m = 10 \<or> m = 11"
    by (simp add: upto.simps)
  have "monthDay year yday =
      (if d \<ge> daysBefore ! nat (m + 1) then (m + 2, d - daysBefore ! nat (m + 1) + 1)
       else (m + 1, d - daysBefore ! nat m + 1))"
    unfolding d_def m_def monthDay_def Let_def using False by (simp only: if_False)
  with assms(3) have r: "(month, day) =
      (if d \<ge> daysBefore ! nat (m + 1) then (m + 2, d - daysBefore ! nat (m + 1) + 1)
       else (m + 1, d - daysBefore ! nat m + 1))"
    by simp
  from m show ?thesis
  proof (elim disjE)
  qed (use r b d in \<open>simp_all add: daysBefore_def split: if_splits\<close>)
qed

lemma pad_shape:
  assumes "0 \<le> n" and "n < 10 ^ w" and "0 < w"
  shows "length (pad w n) = w \<and> isDigits (pad w n) \<and> readNumber 10 (pad w n) = n"
proof -
  from assms have l: "length (digits 10 n) \<le> w"
    by (intro digits_length) simp_all
  from assms(1) have "set (digits 10 n) \<subseteq> set (take (nat 10) ''0123456789abcdef'')"
    by (intro digits_set) simp_all
  then have s: "set (digits 10 n) \<subseteq> set ''0123456789''"
    by simp
  have "set (zeroPad w (digits 10 n)) \<subseteq> insert (CHR ''0'') (set (digits 10 n))"
    by (rule set_zeroPad)
  with s have "set (zeroPad w (digits 10 n)) \<subseteq> set ''0123456789''"
    by auto
  moreover from assms(1) have "readNumber 10 (digits 10 n) = n"
    by (intro readNumber_digits) simp_all
  ultimately show ?thesis using l assms(1)
    by (simp add: pad_def Itoa_def length_zeroPad readNumber_zeroPad isDigits_def list_all_iff subset_iff)
qed

lemma Time_days:
  "- 103096 \<le> Time a div 1000000000 div 86400 \<and> Time a div 1000000000 div 86400 \<le> 110409"
proof -
  have "- (2 ^ 63) \<le> sint a" and "sint a < 2 ^ 63"
    using sint_ge [of a] sint_lt [of a] by simp_all
  then have t: "- 8907407236854775808 \<le> Time a \<and> Time a \<le> 9539336836854775807"
    by (simp add: Time_def GPS_def)
  from div_bounds [of 1000000000 "Time a"] t
  have "- 8907407237 \<le> Time a div 1000000000 \<and> Time a div 1000000000 \<le> 9539336836"
    by linarith
  with div_bounds [of 86400 "Time a div 1000000000"] show ?thesis
    by linarith
qed

lemma dateOf_range:
  assumes "dateOf (Time a) = (y, m, d)"
  shows "1601 \<le> y \<and> y \<le> 2400 \<and> 1 \<le> m \<and> m \<le> 13 \<and> 1 \<le> d \<and> d \<le> 31"
proof -
  define days where "days = Time a div 1000000000 div 86400"
  obtain year yday where yd: "yearDay days = (year, yday)"
    by (cases "yearDay days")
  from assms yd have md: "monthDay year yday = (m, d)" and y: "y = year"
    by (auto simp: dateOf_def civil_def days_def)
  from Time_days [of a] have "616066 \<le> days + 719162 \<and> days + 719162 \<le> 829571"
    by (simp add: days_def)
  with div_bounds [of 146097 "days + 719162"]
  have "4 \<le> (days + 719162) div 146097 \<and> (days + 719162) div 146097 \<le> 5"
    by linarith
  with yearDay_range [OF yd] have r: "0 \<le> yday \<and> yday \<le> 365 \<and> 1601 \<le> year \<and> year \<le> 2400"
    by linarith
  with monthDay_range [OF _ _ md] y show ?thesis
    by simp
qed

lemma secondOfDay_range: "0 \<le> secondOfDay t \<and> secondOfDay t < 86400"
  by (simp add: secondOfDay_def)

lemma hms_split: "(s::int) div 3600 * 3600 + s div 60 mod 60 * 60 + s mod 60 = s"
proof -
  have "s div 3600 = s div 60 div 60"
    by (simp add: zdiv_zmult2_eq)
  moreover have "s div 60 = 60 * (s div 60 div 60) + s div 60 mod 60"
    by simp
  moreover have "s = 60 * (s div 60) + s mod 60"
    by simp
  ultimately show ?thesis by linarith
qed

lemma hms_range:
  assumes "0 \<le> (s::int)" and "s < 86400"
  shows "0 \<le> s div 3600 \<and> s div 3600 < 100 \<and> 0 \<le> s div 60 mod 60 \<and> s div 60 mod 60 < 100
         \<and> 0 \<le> s mod 60 \<and> s mod 60 < 100"
proof -
  have "0 \<le> s div 3600 \<and> s div 3600 < 100"
    using div_bounds [of 3600 s] assms by linarith
  moreover have "0 \<le> s div 60 mod 60 \<and> s div 60 mod 60 < 100"
    using pos_mod_bound [of 60 "s div 60"] pos_mod_sign [of 60 "s div 60"] by linarith
  moreover have "0 \<le> s mod 60 \<and> s mod 60 < 100"
    using pos_mod_bound [of 60 s] pos_mod_sign [of 60 s] by linarith
  ultimately show ?thesis by simp
qed

lemma pad2:
  assumes "0 \<le> n" and "n < 100"
  shows "length (pad 2 n) = 2 \<and> isDigits (pad 2 n) \<and> readNumber 10 (pad 2 n) = n"
  using pad_shape [of n 2] assms by simp

lemma pad4:
  assumes "0 \<le> n" and "n < 10000"
  shows "length (pad 4 n) = 4 \<and> isDigits (pad 4 n) \<and> readNumber 10 (pad 4 n) = n"
  using pad_shape [of n 4] assms by simp

lemma formatCompact_shape:
  "\<exists>y m d H M Y.
     formatCompact (Time a) = y @ m @ d @ ''_'' @ H @ M @ Y
     \<and> length y = 4 \<and> length m = 2 \<and> length d = 2 \<and> length H = 2 \<and> length M = 2 \<and> length Y = 2
     \<and> isDigits y \<and> isDigits m \<and> isDigits d \<and> isDigits H \<and> isDigits M \<and> isDigits Y
     \<and> (readNumber 10 y, readNumber 10 m, readNumber 10 d) = dateOf (Time a)
     \<and> readNumber 10 H = secondOfDay (Time a) div 3600
     \<and> readNumber 10 M = secondOfDay (Time a) div 60 mod 60
     \<and> readNumber 10 Y = readNumber 10 y mod 100"
proof -
  obtain y m d where ymd: "dateOf (Time a) = (y, m, d)"
    by (cases "dateOf (Time a)") auto
  define s where "s = secondOfDay (Time a)"
  from dateOf_range [OF ymd] have r: "0 \<le> y \<and> y < 10000" "0 \<le> m \<and> m < 100" "0 \<le> d \<and> d < 100"
    by simp_all
  have "0 \<le> s \<and> s < 86400"
    unfolding s_def by (rule secondOfDay_range)
  then have h: "0 \<le> s div 3600 \<and> s div 3600 < 100" "0 \<le> s div 60 mod 60 \<and> s div 60 mod 60 < 100"
    using hms_range [of s] by simp_all
  have c: "0 \<le> y mod 100 \<and> y mod 100 < 100"
    using pos_mod_bound [of 100 y] pos_mod_sign [of 100 y] by linarith
  have f: "formatCompact (Time a) =
      pad 4 y @ pad 2 m @ pad 2 d @ ''_'' @ pad 2 (s div 3600) @ pad 2 (s div 60 mod 60) @ pad 2 (y mod 100)"
    unfolding formatCompact_def ymd s_def Let_def by simp
  have py: "length (pad 4 y) = 4 \<and> isDigits (pad 4 y) \<and> readNumber 10 (pad 4 y) = y"
    using r(1) by (intro pad4) simp_all
  have pm: "length (pad 2 m) = 2 \<and> isDigits (pad 2 m) \<and> readNumber 10 (pad 2 m) = m"
    using r(2) by (intro pad2) simp_all
  have pd: "length (pad 2 d) = 2 \<and> isDigits (pad 2 d) \<and> readNumber 10 (pad 2 d) = d"
    using r(3) by (intro pad2) simp_all
  have pH: "length (pad 2 (s div 3600)) = 2 \<and> isDigits (pad 2 (s div 3600))
      \<and> readNumber 10 (pad 2 (s div 3600)) = secondOfDay (Time a) div 3600"
    unfolding s_def [symmetric] using h(1) by (intro pad2) simp_all
  have pM: "length (pad 2 (s div 60 mod 60)) = 2 \<and> isDigits (pad 2 (s div 60 mod 60))
      \<and> readNumber 10 (pad 2 (s div 60 mod 60)) = secondOfDay (Time a) div 60 mod 60"
    unfolding s_def [symmetric] using h(2) by (intro pad2) simp_all
  have pY: "length (pad 2 (y mod 100)) = 2 \<and> isDigits (pad 2 (y mod 100))
      \<and> readNumber 10 (pad 2 (y mod 100)) = readNumber 10 (pad 4 y) mod 100"
    using pad2 [of "y mod 100"] c py by simp
  have g: "(readNumber 10 (pad 4 y), readNumber 10 (pad 2 m), readNumber 10 (pad 2 d)) = dateOf (Time a)"
    using py pm pd ymd by simp
  from f py pm pd pH pM pY g show ?thesis
    by blast
qed

text \<open>The calendar on days around the ends of February (day 0 is 1970-01-01): leap years
  are those divisible by 4, centuries only when divisible by 400.\<close>

lemma civil_examples:
  "map civil [0, 3657, 11016, 11017, -25509, -25508, 47540, 47541, 19782, 20088, 19417]
     = [(1970, 1, 1), (1980, 1, 6), (2000, 2, 29), (2000, 3, 1), (1900, 2, 28), (1900, 3, 1),
        (2100, 2, 28), (2100, 3, 1), (2024, 2, 29), (2024, 12, 31), (2023, 3, 1)]"
  by code_simp

lemma fmt04x_shape:
  "length (fmt04x b) = 4 \<and> set (fmt04x b) \<subseteq> set ''0123456789abcdef''
   \<and> readNumber 16 (fmt04x b) = uint b"
proof (intro conjI)
  have u: "0 \<le> uint b" "uint b < 16 ^ 2"
    using uint_lt2p [of b] by simp_all
  then have "length (digits 16 (uint b)) \<le> 2"
    by (intro digits_length) simp_all
  then show "length (fmt04x b) = 4"
    by (simp add: fmt04x_def length_zeroPad)
  from u(1) have "set (digits 16 (uint b)) \<subseteq> set (take (nat 16) ''0123456789abcdef'')"
    by (intro digits_set) simp_all
  then have s: "set (digits 16 (uint b)) \<subseteq> set ''0123456789abcdef''"
    by simp
  have z: "CHR ''0'' \<in> set ''0123456789abcdef''"
    by simp
  have "set (zeroPad 4 (digits 16 (uint b))) \<subseteq> insert (CHR ''0'') (set (digits 16 (uint b)))"
    by (rule set_zeroPad)
  with s z show "set (fmt04x b) \<subseteq> set ''0123456789abcdef''"
    unfolding fmt04x_def by blast
  from u(1) have "readNumber 16 (digits 16 (uint b)) = uint b"
    by (intro readNumber_digits) simp_all
  then show "readNumber 16 (fmt04x b) = uint b"
    by (simp add: fmt04x_def readNumber_zeroPad)
qed

lemma fmt06d_nonneg: "0 \<le> n \<Longrightarrow> fmt06d n = zeroPad 6 (digits 10 n)"
  by (simp add: fmt06d_def)

lemma fmt06d_shape:
  assumes "0 \<le> n"
  shows "length (fmt06d n) = max 6 (length (digits 10 n))
         \<and> isDigits (fmt06d n) \<and> readNumber 10 (fmt06d n) = n"
proof -
  from assms have "set (digits 10 n) \<subseteq> set (take (nat 10) ''0123456789abcdef'')"
    by (intro digits_set) simp_all
  then have s: "set (digits 10 n) \<subseteq> set ''0123456789''"
    by simp
  have "set (zeroPad 6 (digits 10 n)) \<subseteq> insert (CHR ''0'') (set (digits 10 n))"
    by (rule set_zeroPad)
  with s have "set (zeroPad 6 (digits 10 n)) \<subseteq> set ''0123456789''"
    by auto
  moreover from assms have "readNumber 10 (digits 10 n) = n"
    by (intro readNumber_digits) simp_all
  ultimately show ?thesis using assms
    by (simp add: fmt06d_def length_zeroPad readNumber_zeroPad isDigits_def list_all_iff subset_iff)
qed

lemma fmt06d_six:
  assumes "0 \<le> n" and "n < 1000000"
  shows "length (fmt06d n) = 6"
proof -
  from assms have "length (digits 10 n) \<le> 6"
    by (intro digits_length) simp_all
  with fmt06d_shape [OF assms(1)] show ?thesis by simp
qed

subsection \<open>Readers consume what they return\<close>

lemma binaryRead_length:
  "binaryRead n r = Inr (raw, r') \<Longrightarrow> length raw = n \<and> length r = n + length r'"
  by (auto simp: binaryRead_def split: if_splits)

lemma readFloats_length:
  "readFloats n r = Inr (vs, r') \<Longrightarrow> length vs = n \<and> length r = 4 * n + length r'"
proof (induction n arbitrary: r vs r')
  case 0
  then show ?case by simp
next
  case (Suc n)
  from Suc.prems obtain raw r1 vs1 where
    a: "binaryRead 4 r = Inr (raw, r1)" and
    b: "readFloats n r1 = Inr (vs1, r')" and
    c: "vs = le_word raw # vs1"
    by (auto split: sum.splits prod.splits)
  from binaryRead_length [OF a] Suc.IH [OF b] c show ?case by simp
qed

subsection \<open>The row loop returns\<close>

lemma rowLoop_returns:
  assumes "0 < n"
  shows "\<exists>res. rowLoop L n i r acc = Some res"
  using assms
proof (induction "length r" arbitrary: r i acc rule: less_induct)
  case less
  show ?case
  proof (cases "r = []")
    case True
    then show ?thesis by (simp add: rowLoop.simps)
  next
    case False
    show ?thesis
    proof (cases "readFloats n r")
      case (Inl e)
      with False show ?thesis by (simp add: rowLoop.simps)
    next
      case (Inr p)
      obtain vs r' where p: "p = (vs, r')" by (cases p)
      let ?acc = "acc @ [Itoa (int i) # map (formatFloat32 L) vs]"
      from readFloats_length [of n r vs r'] Inr p less.prems
      have "length r' < length r" by simp
      from less.hyps [OF this less.prems, of "Suc i" ?acc]
      obtain res where "rowLoop L n (Suc i) r' ?acc = Some res" by blast
      with False Inr p show ?thesis by (subst rowLoop.simps) simp
    qed
  qed
qed

text \<open>With no column and a byte left, the loop reads nothing and never ends.\<close>

lemma rowLoop_stuck:
  assumes "rowLoop L n i r acc = Some res"
  shows "n = 0 \<longrightarrow> r = []"
proof (rule rowLoop.raw_induct [where P = "\<lambda>L n i r acc res. n = 0 \<longrightarrow> r = []", OF _ assms],
    rule impI)
  fix f L n i r acc res
  assume ih: "\<And>L n i r acc res. f L n i r acc = Some res \<Longrightarrow> n = 0 \<longrightarrow> r = []"
    and body: "(if r = [] then Some (None, acc)
                else case readFloats n r of
                       Inl e \<Rightarrow> Some (Some e, acc)
                     | Inr (vs, r') \<Rightarrow> f L n (Suc i) r' (acc @ [Itoa (int i) # map (formatFloat32 L) vs]))
               = Some res"
    and n: "n = 0"
  show "r = []"
  proof (rule ccontr)
    assume "r \<noteq> []"
    with body n have "f L 0 (Suc i) r (acc @ [[Itoa (int i)]]) = Some res"
      by simp
    from ih [OF this] \<open>r \<noteq> []\<close> show False
      by simp
  qed
qed

lemma rowLoop_no_column: "r \<noteq> [] \<Longrightarrow> rowLoop L 0 i r acc = None"
  using rowLoop_stuck [of L 0 i r acc] by (cases "rowLoop L 0 i r acc") auto

text \<open>
  C9.  \<^verbatim>\<open>processData\<close> returns on every input whose column count is at least one: a
  data row that is read takes \<open>4 * N\<close> bytes off the buffer, which is shorter afterwards,
  and a row that cannot be read ends the loop with the read error.
\<close>

theorem processData_terminates:
  assumes "1 \<le> unat b"
  shows "(\<exists>res. processData L s (b # rs) file = Some res) \<and>
         (\<forall>r vs r'. readFloats (unat b) r = Inr (vs, r') \<longrightarrow>
            length r = 4 * unat b + length r' \<and> length r' < length r)"
proof
  from assms have n: "0 < unat b" by simp
  show "\<exists>res. processData L s (b # rs) file = Some res"
  proof (cases "osCreate s file")
    case (Inl e)
    then show ?thesis by (simp add: processData_def)
  next
    case c: (Inr s1)
    show ?thesis
    proof (cases "readScales (unat b) rs")
      case (Inl e)
      with c show ?thesis by (simp add: processData_def)
    next
      case (Inr p)
      obtain hs rs' where p: "p = (hs, rs')" by (cases p)
      from rowLoop_returns [OF n, of L 0 rs' "[''t'' # hs]"]
      obtain res where "rowLoop L (unat b) 0 rs' [''t'' # hs] = Some res" by blast
      with c Inr p show ?thesis
        by (cases res) (auto simp: processData_def split: option.splits)
    qed
  qed
  show "\<forall>r vs r'. readFloats (unat b) r = Inr (vs, r') \<longrightarrow>
          length r = 4 * unat b + length r' \<and> length r' < length r"
    using n readFloats_length by fastforce
qed

theorem processData_terminates_witness:
  "(\<exists>res. processData plainLib emptyFs [2, 5, 0, 9, 0, 0, 0, 192, 63, 0, 0, 16, 192] ''x.csv'' = Some res)"
proof -
  have "1 \<le> unat (2 :: byte)" by simp
  from processData_terminates [OF this] show ?thesis by blast
qed

subsection \<open>The layout of the metadata record\<close>

lemma length_le_bytes: "length (le_bytes k v) = k"
  by (induction k arbitrary: v) simp_all

lemma le_int_le_bytes: "le_int (le_bytes k v) = v mod 256 ^ k"
proof (induction k arbitrary: v)
  case 0
  then show ?case by simp
next
  case (Suc k)
  have "uint (word_of_int v :: byte) = v mod 256"
    by (simp add: uint_word_of_int)
  moreover have "v mod (256 * 256 ^ k) = 256 * (v div 256 mod 256 ^ k) + v mod 256"
    by (rule zmod_zmult2_eq) simp
  ultimately show ?case using Suc.IH [of "v div 256"] by simp
qed

lemma le_word_le_bytes:
  assumes "LENGTH('a::len) = 8 * k"
  shows "(le_word (le_bytes k (uint (w :: 'a word))) :: 'a word) = w"
proof -
  have "(256::int) ^ k = 2 ^ LENGTH('a)"
    using assms by (simp add: power_mult)
  with uint_lt2p [of w] have "uint w mod 256 ^ k = uint w"
    by simp
  then show ?thesis
    by (simp add: le_word_def le_int_le_bytes)
qed

lemma length_encodeMetadata: "length (encodeMetadata m) = 42 + length (UPI m)"
  by (simp add: encodeMetadata_def length_le_bytes)

lemma chop_encodeMetadata:
  assumes "length (UPI m) = 32"
  shows "chop metadataWidths (encodeMetadata m) =
     [le_bytes 1 (uint (Magic m)), le_bytes 8 (uint (Acquisition m)), le_bytes 4 (uint (Sequence m)),
      le_bytes 8 (uint (Auxiliary m)), le_bytes 1 (uint (Source m)), le_bytes 2 (uint (X m)),
      le_bytes 2 (uint (Y m)), le_bytes 1 (uint (Format m)), le_bytes 2 (uint (Drop m)),
      le_bytes 2 (uint (OffsetX m)), le_bytes 2 (uint (SizeX m)), le_bytes 2 (uint (OffsetY m)),
      le_bytes 2 (uint (SizeY m)), le_bytes 2 (uint (ScaleX m)), le_bytes 2 (uint (ScaleY m)),
      le_bytes 1 (uint (Ratio m)), UPI m]"
  using assms by (simp add: metadataWidths_def encodeMetadata_def length_le_bytes)

lemma le_word_single: "(le_word [b] :: byte) = b"
  by (simp add: le_word_def)

lemma decode_encode:
  assumes "length (UPI m) = 32"
  shows "decodeMetadata (encodeMetadata m) = m"
  unfolding decodeMetadata_def chop_encodeMetadata [OF assms] Let_def
  by (simp add: le_word_le_bytes le_word_single)


subsection \<open>Effects on the file system\<close>

lemma mkdirChain_made: "mkdirChain s (p # ps) = Inr s' \<Longrightarrow> p \<in> dirs s'"
  by (auto split: if_splits sum.splits)

lemma mkdirChain_files: "mkdirChain s ps = Inr s' \<Longrightarrow> files s' = files s"
  by (induction ps arbitrary: s') (auto split: if_splits sum.splits)

lemma mkdirChain_dirs: "mkdirChain s ps = Inr s' \<Longrightarrow> dirs s \<subseteq> dirs s' \<and> dirs s' \<subseteq> dirs s \<union> set ps"
  by (induction ps arbitrary: s') (auto split: if_splits sum.splits)

lemma MkdirAll_made: "MkdirAll s p = Inr s' \<Longrightarrow> p \<in> dirs s'"
  unfolding MkdirAll_def by (rule mkdirChain_made)

lemma MkdirAll_files: "MkdirAll s p = Inr s' \<Longrightarrow> files s' = files s"
  unfolding MkdirAll_def by (rule mkdirChain_files)

lemma MkdirAll_dirs:
  "MkdirAll s p = Inr s' \<Longrightarrow> dirs s \<subseteq> dirs s' \<and> dirs s' \<subseteq> dirs s \<union> insert p (set (ancestors p))"
  unfolding MkdirAll_def using mkdirChain_dirs [of s "p # ancestors p" s'] by simp

lemma osCreate_effect:
  "osCreate s p = Inr s' \<Longrightarrow> dirs s' = dirs s \<and> files s' = (files s)(p \<mapsto> [])"
  by (auto simp: osCreate_def split: if_splits)

lemma writeFile_effect: "dirs (writeFile s p bs) = dirs s \<and> files (writeFile s p bs) = (files s)(p \<mapsto> bs)"
  by (simp add: writeFile_def)

lemma processMeta_done:
  assumes "processMeta L s r datadir upi source per seq when = Return ((name, shard, None), s', r')"
  shows "\<exists>raw s1. binaryRead metadataSize r = Inr (raw, r') \<and> per \<noteq> 0
          \<and> name = csvName (decodeMetadata raw) upi
          \<and> shard = quo (uint (Sequence (decodeMetadata raw))) per
          \<and> MkdirAll s (Join datadir (fmt06d shard)) = Inr s1
          \<and> dirs s' = dirs s1
          \<and> files s' = (files s)(Join (Join datadir (fmt06d shard)) name @ ''.xml'' \<mapsto>
                xmlEncode L (metadataElement (decodeMetadata raw) when seq source))"
proof (cases "binaryRead metadataSize r")
  case (Inl e)
  with assms show ?thesis by (simp add: processMeta_def)
next
  case (Inr p)
  obtain raw r1 where p: "p = (raw, r1)" by (cases p)
  define info where "info = decodeMetadata raw"
  define dir where "dir = Join datadir (fmt06d (quo (uint (Sequence info)) per))"
  from assms Inr p have per: "per \<noteq> 0"
    by (auto simp: processMeta_def Let_def split: if_splits)
  show ?thesis
  proof (cases "MkdirAll s dir")
    case (Inl e)
    with assms Inr p per show ?thesis
      by (simp add: processMeta_def Let_def dir_def info_def)
  next
    case m: (Inr s1)
    show ?thesis
    proof (cases "osCreate s1 (Join dir (csvName info upi) @ ''.xml'')")
      case (Inl e)
      with assms Inr p per m show ?thesis
        by (simp add: processMeta_def Let_def dir_def info_def)
    next
      case c: (Inr s2)
      from assms Inr p per m c
      have res: "name = csvName info upi" "shard = quo (uint (Sequence info)) per" "r' = r1"
        "s' = writeFile s2 (Join dir (csvName info upi) @ ''.xml'')
                (xmlEncode L (metadataElement info when seq source))"
        by (auto simp: processMeta_def Let_def dir_def info_def)
      from osCreate_effect [OF c] MkdirAll_files [OF m] res writeFile_effect
      have "dirs s' = dirs s1" and
        "files s' = (files s)(Join dir (csvName info upi) @ ''.xml'' \<mapsto>
                xmlEncode L (metadataElement info when seq source))"
        by simp_all
      with res Inr p per m show ?thesis
        by (simp add: dir_def info_def)
    qed
  qed
qed







subsection \<open>Recognized files\<close>

text \<open>What \<^verbatim>\<open>processFile\<close> does once the envelope is read, the tag is right, the name has
  its six parts and the directory of the identifier is there.\<close>

lemma processFile_recognized:
  assumes "files s file = Some bs" and "16 \<le> length bs" and "take 4 bs = magic"
    and "middleParts (splitOn (CHR ''_'') (Base file)) = Return mid"
    and "MkdirAll s (Join datadir (joinWith ''_'' mid)) = Inr s1"
  shows "processFile L s file datadir per =
     (if (be_word (take 4 (drop 4 bs)) :: 32 word) = 1 then
        (case processIntro s1 (drop 16 bs) (Join datadir (joinWith ''_'' mid)) (joinWith ''_'' mid) of
           (res, s2) \<Rightarrow> Some (Return res, s2))
      else
        (case processMeta L s1 (drop 16 bs) (Join datadir (joinWith ''_'' mid)) (joinWith ''_'' mid)
                file per (be_word (take 4 (drop 4 bs))) (be_word (take 8 (drop 8 bs))) of
           Panic p \<Rightarrow> Some (Panic p, s1)
         | Return ((name, shard, Some e), s2, r2) \<Rightarrow> Some (Return (name, Some e), s2)
         | Return ((name, shard, None), s2, r2) \<Rightarrow>
             (case processData L s2 r2
                     (Join (Join (Join datadir (joinWith ''_'' mid)) (fmt06d shard)) name) of
                None \<Rightarrow> None
              | Some (err, s3) \<Rightarrow>
                  Some (Return (Join (Join (Join datadir (joinWith ''_'' mid)) (fmt06d shard)) name, err), s3))))"
proof -
  from assms(2) have h: "take 4 (take 16 bs) = take 4 bs" "take 4 (drop 4 (take 16 bs)) = take 4 (drop 4 bs)"
    "drop 8 (take 16 bs) = take 8 (drop 8 bs)"
    by (simp_all add: drop_take)
  from assms(2) have b: "binaryRead 16 bs = Inr (take 16 bs, drop 16 bs)"
    by (simp add: binaryRead_def)
  show ?thesis
    unfolding processFile_def osOpen_def
    by (simp add: assms(1,3,4,5) b h Let_def split: exec.split option.split prod.split)
qed

subsection \<open>Unrecognized files\<close>

text \<open>
  C5 (as amended).  An input file whose first four bytes are not the tag is left alone:
  \<^verbatim>\<open>processFile\<close> returns the empty name and changes nothing in the file system.  The
  error is nil when the file holds the 16 bytes of an envelope at least; a shorter file
  is refused by the read of the envelope, before the tag is looked at, with
  \<^verbatim>\<open>io.ErrUnexpectedEOF\<close> (\<^verbatim>\<open>io.EOF\<close> for an empty file).
\<close>

theorem processFile_unrecognized:
  assumes "files s file = Some bs" and "take 4 bs \<noteq> magic"
  shows "processFile L s file datadir per =
           Some (Return ([], if 16 \<le> length bs then None
                             else Some (if bs = [] then EOF else ErrUnexpectedEOF)), s)"
  using assms
  by (auto simp: processFile_def osOpen_def binaryRead_def Let_def)

theorem processFile_unrecognized_witness:
  "processFile plainLib (oneFile ''x.dat'' (replicate 16 0)) ''x.dat'' ''/out'' 512 =
     Some (Return ([], None), oneFile ''x.dat'' (replicate 16 0))"
proof -
  have a: "files (oneFile ''x.dat'' (replicate 16 0)) ''x.dat'' = Some (replicate 16 0)"
    by (simp add: oneFile_def)
  have b: "take 4 (replicate 16 (0::byte)) \<noteq> magic"
    by code_simp
  from processFile_unrecognized [OF a b] show ?thesis by simp
qed

text \<open>The claim as it stands fails on a file of four bytes that are not the tag: the
  result carries an error.\<close>

theorem processFile_short_file_is_error:
  "returned (processFile plainLib (oneFile ''x.dat'' (bytes_of ''ABCD'')) ''x.dat'' ''/out'' 512)
     = Some (Return ([], Some ErrUnexpectedEOF))"
  by code_simp

subsection \<open>The identifier taken from the file name\<close>

text \<open>With six parts or more the identifier is made of all parts but the first and the
  last five.\<close>

lemma middleParts_six:
  "6 \<le> length parts \<Longrightarrow> middleParts parts = Return (take (length parts - 6) (drop 1 parts))"
  by (simp add: middleParts_def)

lemma middleParts_short:
  "length parts < 6 \<Longrightarrow> middleParts parts = Panic SliceBoundsOutOfRange"
  by (simp add: middleParts_def)

text \<open>A recognized file whose base name has fewer than six parts makes \<^verbatim>\<open>processFile\<close>
  panic, whatever else the file holds; nothing has been created by then.\<close>

lemma processFile_short_name:
  assumes "files s file = Some bs" and "16 \<le> length bs" and "take 4 bs = magic"
    and "length (splitOn (CHR ''_'') (Base file)) < 6"
  shows "processFile L s file datadir per = Some (Panic SliceBoundsOutOfRange, s)"
  using assms
  by (simp add: processFile_def osOpen_def binaryRead_def Let_def middleParts_short)

text \<open>
  C4.  The claim promises a degenerate identifier and a file that is still processed
  when the base name has fewer than six parts.  On the recognized data record
  \<^verbatim>\<open>a_b.dat\<close> (two parts) the slice expression panics instead.
\<close>

theorem processFile_short_name_panics:
  "returned (processFile plainLib
       (oneFile ''a_b.dat'' (envelope 2 @ encodeMetadata (sampleMetadata 0 7) @ sampleBlock))
       ''a_b.dat'' ''/out'' 512)
     = Some (Panic SliceBoundsOutOfRange)"
  by code_simp

subsection \<open>The shard directory\<close>

lemma quo_floor: "0 \<le> a \<Longrightarrow> 0 < b \<Longrightarrow> quo a b = a div b"
  by (cases "a = 0") (simp_all add: quo_def)

text \<open>
  C3 (as amended).  For a data record whose packet metadata carries the originator
  sequence number \<open>S\<close>, and a positive number \<open>P\<close> of files per directory, the shard index
  that \<^verbatim>\<open>processMeta\<close> returns is \<open>S div P\<close>, rounded down; the directory it ensures
  under the directory of the identifier is named by that index, padded with zeros to six
  digits at least (1025 and 512 give index 2 and the name \<^verbatim>\<open>000002\<close>).  The sequence
  counter of the envelope plays no part in it.
\<close>

theorem shard_index:
  assumes "0 < per" and "binaryRead metadataSize r = Inr (raw, r')"
  shows "shardIndex (processMeta L s r datadir upi source per seq when)
           = Some (uint (Sequence (decodeMetadata raw)) div per)
         \<and> (\<forall>name shard s' r''.
               processMeta L s r datadir upi source per seq when = Return ((name, shard, None), s', r'')
               \<longrightarrow> shard = uint (Sequence (decodeMetadata raw)) div per
                   \<and> Join datadir (fmt06d shard) \<in> dirs s')
         \<and> isDigits (fmt06d (uint (Sequence (decodeMetadata raw)) div per))
         \<and> 6 \<le> length (fmt06d (uint (Sequence (decodeMetadata raw)) div per))
         \<and> readNumber 10 (fmt06d (uint (Sequence (decodeMetadata raw)) div per))
               = uint (Sequence (decodeMetadata raw)) div per
         \<and> fmt06d (1025 div 512) = ''000002''"
proof -
  define S where "S = uint (Sequence (decodeMetadata raw))"
  have S: "0 \<le> S" by (simp add: S_def)
  from S assms(1) have q: "quo S per = S div per" by (rule quo_floor)
  from S assms(1) have n: "0 \<le> S div per" by (simp add: pos_imp_zdiv_nonneg_iff)
  have 1: "shardIndex (processMeta L s r datadir upi source per seq when) = Some (S div per)"
    using assms q
    by (simp add: processMeta_def shardIndex_def Let_def S_def split: sum.split)
  have 2: "\<forall>name shard s' r''.
      processMeta L s r datadir upi source per seq when = Return ((name, shard, None), s', r'')
      \<longrightarrow> shard = S div per \<and> Join datadir (fmt06d shard) \<in> dirs s'"
  proof (intro allI impI)
    fix name shard s' r''
    assume a: "processMeta L s r datadir upi source per seq when = Return ((name, shard, None), s', r'')"
    from processMeta_done [OF a] assms(2) q obtain s1 where
      "shard = S div per" "MkdirAll s (Join datadir (fmt06d shard)) = Inr s1" "dirs s' = dirs s1"
      by (auto simp: S_def)
    with MkdirAll_made [of s "Join datadir (fmt06d shard)" s1]
    show "shard = S div per \<and> Join datadir (fmt06d shard) \<in> dirs s'"
      by simp
  qed
  have 3: "fmt06d (1025 div 512) = ''000002''"
    by code_simp
  from fmt06d_shape [OF n] have 4: "isDigits (fmt06d (S div per)) \<and> 6 \<le> length (fmt06d (S div per))
      \<and> readNumber 10 (fmt06d (S div per)) = S div per"
    by simp
  from 1 2 3 4 show ?thesis
    unfolding S_def by blast
qed

theorem shard_index_witness:
  "shardIndex (processMeta plainLib emptyFs (encodeMetadata (sampleMetadata 0 1025) @ sampleBlock)
      ''/out/FOO'' ''FOO'' ''a_FOO_1_2_3_4_5'' 512 2 0) = Some 2"
proof -
  have a: "(0::int) < 512" by simp
  have b: "binaryRead metadataSize (encodeMetadata (sampleMetadata 0 1025) @ sampleBlock)
             = Inr (encodeMetadata (sampleMetadata 0 1025), sampleBlock)"
    by code_simp
  have c: "uint (Sequence (decodeMetadata (encodeMetadata (sampleMetadata 0 1025)))) div 512 = 2"
    by code_simp
  from shard_index [OF a b, of plainLib emptyFs "''/out/FOO''" "''FOO''" "''a_FOO_1_2_3_4_5''" 2 0] c
  show ?thesis by simp
qed

text \<open>The claim as it stands takes \<open>S\<close> from the envelope.  With the envelope counter 2,
  the originator sequence number 1025 and 512 files per directory the index is 2, not
  \<open>2 div 512\<close>.\<close>

theorem shard_index_not_from_envelope:
  "shardIndex (processMeta plainLib emptyFs (encodeMetadata (sampleMetadata 0 1025) @ sampleBlock)
      ''/out/FOO'' ''FOO'' ''a_FOO_1_2_3_4_5'' 512 2 0) \<noteq> Some (uint (2 :: 32 word) div 512)"
  by code_simp

subsection \<open>The derived file name\<close>

text \<open>
  The name \<^verbatim>\<open>processMeta\<close> derives from a decoded record, for every record: the
  originator id in exactly four hexadecimal digits, an underscore, the identifier, an
  underscore, the acquisition time as four digits of year, two of month, two of day, an
  underscore, two digits of hour, two of minute and the last two digits of the year, an
  underscore, the originator sequence number in decimal padded with zeros to six digits
  at least, and \<^verbatim>\<open>.csv\<close>.  Each group of digits reads back as the number it stands for.
\<close>

lemma csvName_shape:
  "\<exists>src ts num y m d H M Y.
      csvName info upi = src @ ''_'' @ upi @ ''_'' @ ts @ ''_'' @ num @ ''.csv''
      \<and> length src = 4 \<and> set src \<subseteq> set ''0123456789abcdef'' \<and> readNumber 16 src = uint (Source info)
      \<and> ts = y @ m @ d @ ''_'' @ H @ M @ Y
      \<and> length y = 4 \<and> length m = 2 \<and> length d = 2 \<and> length H = 2 \<and> length M = 2 \<and> length Y = 2
      \<and> isDigits y \<and> isDigits m \<and> isDigits d \<and> isDigits H \<and> isDigits M \<and> isDigits Y
      \<and> (readNumber 10 y, readNumber 10 m, readNumber 10 d) = dateOf (Time (Acquisition info))
      \<and> readNumber 10 H = secondOfDay (Time (Acquisition info)) div 3600
      \<and> readNumber 10 M = secondOfDay (Time (Acquisition info)) div 60 mod 60
      \<and> readNumber 10 Y = readNumber 10 y mod 100
      \<and> num = zeroPad 6 (digits 10 (uint (Sequence info)))
      \<and> isDigits num \<and> 6 \<le> length num \<and> readNumber 10 num = uint (Sequence info)"
proof -
  have n: "0 \<le> uint (Sequence info)" by simp
  from formatCompact_shape [of "Acquisition info"] obtain y m d H M Y where
    ts: "formatCompact (Time (Acquisition info)) = y @ m @ d @ ''_'' @ H @ M @ Y
     \<and> length y = 4 \<and> length m = 2 \<and> length d = 2 \<and> length H = 2 \<and> length M = 2 \<and> length Y = 2
     \<and> isDigits y \<and> isDigits m \<and> isDigits d \<and> isDigits H \<and> isDigits M \<and> isDigits Y
     \<and> (readNumber 10 y, readNumber 10 m, readNumber 10 d) = dateOf (Time (Acquisition info))
     \<and> readNumber 10 H = secondOfDay (Time (Acquisition info)) div 3600
     \<and> readNumber 10 M = secondOfDay (Time (Acquisition info)) div 60 mod 60
     \<and> readNumber 10 Y = readNumber 10 y mod 100"
    by blast
  have num: "fmt06d (uint (Sequence info)) = zeroPad 6 (digits 10 (uint (Sequence info)))
      \<and> isDigits (fmt06d (uint (Sequence info))) \<and> 6 \<le> length (fmt06d (uint (Sequence info)))
      \<and> readNumber 10 (fmt06d (uint (Sequence info))) = uint (Sequence info)"
    using fmt06d_shape [OF n] fmt06d_nonneg [OF n] by simp
  have c: "csvName info upi = fmt04x (Source info) @ ''_'' @ upi @ ''_''
      @ formatCompact (Time (Acquisition info)) @ ''_'' @ fmt06d (uint (Sequence info)) @ ''.csv''"
    by (simp add: csvName_def)
  show ?thesis
    apply (rule exI [of _ "fmt04x (Source info)"])
    apply (rule exI [of _ "formatCompact (Time (Acquisition info))"])
    apply (rule exI [of _ "fmt06d (uint (Sequence info))"])
    using c ts num fmt04x_shape [of "Source info"] by blast
qed

text \<open>
  C2.  The name of the CSV file does not carry the second of the acquisition time.  The
  record of originator 10 and identifier \<^verbatim>\<open>FOO\<close> with originator sequence number 7,
  acquired 1234567890123456789 ticks after the epoch, that is at
  2019-02-18T23:31:30.123456789Z as the metadata document shows it, is named
  \<^verbatim>\<open>000a_FOO_20190218_233119_000007.csv\<close> by \<^verbatim>\<open>processMeta\<close>: after hour 23 and minute 31
  come the digits 19 of the year, where the second 30 was to stand.  The record acquired
  at the epoch itself, 1980-01-06T00:00:00Z, is named with the time \<^verbatim>\<open>000080\<close>.  The layout
  of the name ends in \<^verbatim>\<open>06\<close>, the year in two digits, where \<^verbatim>\<open>05\<close> is the second.
\<close>

theorem csv_name_ends_in_year:
  "metaResult (processMeta plainLib emptyFs
       (encodeMetadata (sampleMetadata 1234567890123456789 7) @ sampleBlock)
       ''/out/FOO'' ''FOO'' ''/in/a_FOO_1_2_3_4_5'' 512 2 0)
     = Some (''000a_FOO_20190218_233119_000007.csv'', 0, None, sampleBlock)
   \<and> TimestampString 1234567890123456789 = ''2019-02-18T23:31:30.123456789Z''
   \<and> csvName (sampleMetadata 0 7) ''FOO'' = ''000a_FOO_19800106_000080_000007.csv''
   \<and> TimestampString 0 = ''1980-01-06T00:00:00Z''"
  by code_simp

subsection \<open>The metadata record as read\<close>

text \<open>
  C1 (as amended).  The record \<^verbatim>\<open>processMeta\<close> reads right after the envelope is flat,
  little endian and 74 bytes long: one byte \<^verbatim>\<open>Magic\<close> comes first (it is kept out of the
  metadata document), then the acquisition timestamp (8 bytes), the originator sequence
  number (4), the auxiliary time (8), the originator id (1), the source sizes (2, 2),
  the format (1), fdrp (2), the four region-of-interest words (2 each), the two scale
  sizes (2 each), scale-far (1) and the 32 bytes of user packet info, with nothing in
  between.  Decoding the bytes of that layout gives every field back, exactly 74 bytes
  are taken from the reader, and fewer than 74 are refused.
\<close>

theorem metadata_layout:
  assumes "length (UPI m) = 32"
  shows "metadataSize = 74 \<and> length (encodeMetadata m) = 74
         \<and> decodeMetadata (encodeMetadata m) = m
         \<and> binaryRead metadataSize (encodeMetadata m @ rest) = Inr (encodeMetadata m, rest)
         \<and> (\<forall>r. length r < 74 \<longrightarrow>
               processMeta L s r datadir upi source per seq when
                 = Return (([], - 1, Some (if r = [] then EOF else ErrUnexpectedEOF)), s, []))
         \<and> (per \<noteq> 0 \<longrightarrow>
               shardIndex (processMeta L s (encodeMetadata m @ rest) datadir upi source per seq when)
                 = Some (quo (uint (Sequence m)) per))"
proof -
  have sz: "metadataSize = 74"
    by (simp add: metadataSize_def metadataWidths_def)
  have len: "length (encodeMetadata m) = 74"
    using assms by (simp add: length_encodeMetadata)
  have rd: "binaryRead metadataSize (encodeMetadata m @ rest) = Inr (encodeMetadata m, rest)"
    using len by (simp add: binaryRead_def sz)
  have short: "\<forall>r. length r < 74 \<longrightarrow>
      processMeta L s r datadir upi source per seq when
        = Return (([], - 1, Some (if r = [] then EOF else ErrUnexpectedEOF)), s, [])"
    by (simp add: processMeta_def binaryRead_def sz)
  have sh: "per \<noteq> 0 \<longrightarrow>
      shardIndex (processMeta L s (encodeMetadata m @ rest) datadir upi source per seq when)
        = Some (quo (uint (Sequence m)) per)"
    by (simp add: processMeta_def rd decode_encode [OF assms] shardIndex_def Let_def split: sum.split)
  from sz len decode_encode [OF assms] rd short sh show ?thesis
    by blast
qed

theorem metadata_layout_witness:
  "decodeMetadata (encodeMetadata (sampleMetadata 1234567890123456789 7))
     = sampleMetadata 1234567890123456789 7
   \<and> length (encodeMetadata (sampleMetadata 1234567890123456789 7)) = 74
   \<and> shardIndex (processMeta plainLib emptyFs (encodeMetadata (sampleMetadata 1234567890123456789 7) @ sampleBlock)
        ''/out/FOO'' ''FOO'' ''/in/a_FOO_1_2_3_4_5'' 512 2 0) = Some (quo (uint (7 :: 32 word)) 512)"
proof -
  have a: "length (UPI (sampleMetadata 1234567890123456789 7)) = 32"
    by (simp add: sampleMetadata_def bytes_of_def)
  have b: "(512::int) \<noteq> 0" by simp
  have c: "Sequence (sampleMetadata 1234567890123456789 7) = 7"
    by (simp add: sampleMetadata_def)
  from metadata_layout [OF a, of sampleBlock plainLib emptyFs "''/out/FOO''" "''FOO''" "''/in/a_FOO_1_2_3_4_5''" 512 2 0] b c
  show ?thesis by simp
qed

text \<open>The claim as it stands has no byte before the acquisition timestamp.  A record laid
  out so is one byte short, and when a sample block follows, its timestamp is read from
  the wrong place.\<close>

theorem metadata_record_starts_with_magic:
  "binaryRead metadataSize (specEncodeMetadata (sampleMetadata 1 7)) = Inl ErrUnexpectedEOF
   \<and> Acquisition (decodeMetadata (take metadataSize (specEncodeMetadata (sampleMetadata 1 7) @ sampleBlock))) \<noteq> 1"
  by code_simp

subsection \<open>The metadata document\<close>

text \<open>Whatever the record, the elements of the document are these, in this order: every
  field of \<^verbatim>\<open>Metadata\<close> but \<^verbatim>\<open>Magic\<close> under the name of its tag, except the last, which
  \<^verbatim>\<open>UPI.MarshalXML\<close> names \<^verbatim>\<open>upi\<close>.\<close>

lemma metadataElement_names:
  "elementNames (metadataElement info when seq source) =
     [''acquisition-time'', ''originator-seq-no'', ''auxiliary-time'', ''originator-id'',
      ''source-x-size'', ''source-y-size'', ''format'', ''fdrp'', ''roi-x-offset'', ''roi-x-size'',
      ''roi-y-offset'', ''roi-y-size'', ''scale-x-size'', ''scale-y-size'', ''scale-far'', ''upi'']"
  by (simp add: metadataElement_def field_def Timestamp_MarshalXML_def UPI_MarshalXML_def)

lemma no_user_packet_info_element:
  "''user-packet-info'' \<notin> set (elementNames (metadataElement info when seq source))"
  unfolding metadataElement_names by simp

text \<open>
  C7.  The claim has the identifier under the element name \<^verbatim>\<open>user-packet-info\<close>, the name
  in the tag of the field.  The document of the sample record (originator 10, identifier
  \<^verbatim>\<open>FOO\<close>, originator sequence number 7, envelope counter 2) has it under \<^verbatim>\<open>upi\<close>; the
  rest is as the claim says: trimmed text, the acquisition time in the precise form, and
  the three attributes of provenance.
\<close>

theorem identifier_element_is_upi:
  "metadataElement (sampleMetadata 1234567890123456789 7) 0 2 ''/in/a_FOO_1_2_3_4_5'' =
     Element ''metadata''
       [(''svs-timestamp'', ''1980-01-06T00:00:00Z''), (''svs-sequence'', ''2''),
        (''svs-file'', ''a_FOO_1_2_3_4_5'')]
       [Element ''acquisition-time'' [] [CharData ''2019-02-18T23:31:30.123456789Z''],
        Element ''originator-seq-no'' [] [CharData ''7''],
        Element ''auxiliary-time'' [] [CharData ''0''],
        Element ''originator-id'' [] [CharData ''10''],
        Element ''source-x-size'' [] [CharData ''0''],
        Element ''source-y-size'' [] [CharData ''0''],
        Element ''format'' [] [CharData ''0''],
        Element ''fdrp'' [] [CharData ''0''],
        Element ''roi-x-offset'' [] [CharData ''0''],
        Element ''roi-x-size'' [] [CharData ''0''],
        Element ''roi-y-offset'' [] [CharData ''0''],
        Element ''roi-y-size'' [] [CharData ''0''],
        Element ''scale-x-size'' [] [CharData ''0''],
        Element ''scale-y-size'' [] [CharData ''0''],
        Element ''scale-far'' [] [CharData ''0''],
        Element ''upi'' [] [CharData ''FOO'']]"
  by code_simp

subsection \<open>The directory of the identifier\<close>






subsection \<open>The bounded run\<close>

lemma accounted_start: "accounted w paths (start paths)"
  by (simp add: accounted_def start_def)

lemma accounted_step:
  assumes "step outcome w s s'" and "accounted w paths s"
  shows "accounted w paths s'"
  using assms
proof (induction rule: step.induct)
  case (admit s f rest)
  then show ?case by (simp add: accounted_def)
next
  case (complete s f res)
  from complete.hyps(2) have "mset (running s) = add_mset f (mset (remove1 f (running s)))"
    by simp
  moreover from complete.hyps(2) have "length (remove1 f (running s)) = length (running s) - 1"
    by (simp add: length_remove1)
  moreover have "f \<in># mset paths"
  proof -
    from complete.hyps(2) have "f \<in># mset (pending s) + mset (running s) + mset (map fst (finished s))"
      by simp
    with complete.prems show ?thesis
      by (simp add: accounted_def)
  qed
  ultimately show ?case using complete.hyps complete.prems
    by (auto simp: accounted_def)
next
  case (panicked s f p)
  then show ?case by (simp add: accounted_def)
next
  case (drain s)
  then show ?case by (auto simp: accounted_def)
qed

lemma reachable_accounted: "reachable outcome w paths s \<Longrightarrow> accounted w paths s"
  by (induction rule: reachable.induct) (auto intro: accounted_start accounted_step)

lemma running_is_path:
  assumes "accounted w paths s" and "f \<in> set (running s)"
  shows "f \<in> set paths"
proof -
  from assms(2) have "f \<in># mset (pending s) + mset (running s) + mset (map fst (finished s))"
    by simp
  with assms(1) have "f \<in># mset paths"
    by (simp add: accounted_def)
  then show ?thesis by simp
qed

lemma step_aborted:
  assumes "step outcome w s s'" and "phase s' = Aborted"
  shows "\<exists>f\<in>set (running s). \<exists>p. outcome f (Panic p)"
  using assms by (induction rule: step.induct) auto

lemma reachable_aborted:
  assumes "reachable outcome w paths s" and "phase s = Aborted"
  shows "\<exists>f\<in>set paths. \<exists>p. outcome f (Panic p)"
  using assms
proof (cases rule: reachable.cases)
  case initial
  with assms(2) show ?thesis by (simp add: start_def)
next
  case (further s0)
  from step_aborted [OF further(2) assms(2)] obtain f p where
    f: "f \<in> set (running s0)" "outcome f (Panic p)"
    by blast
  from running_is_path [OF reachable_accounted [OF further(1)] f(1)] f(2) show ?thesis
    by blast
qed

text \<open>
  In every state a run can reach, at most \<open>w\<close> pipelines are running; while \<^verbatim>\<open>main\<close> is
  in its loop the units held are one for each running pipeline (taken at admission,
  given back at completion whatever \<^verbatim>\<open>processFile\<close> returned); \<^verbatim>\<open>main\<close> has returned only
  when no path is pending, no pipeline is running and every input path has finished;
  and the process has ended otherwise only when the call of \<^verbatim>\<open>processFile\<close> on one of the
  paths panics.
\<close>

theorem run_bounded:
  assumes "reachable outcome w paths s"
  shows "length (running s) \<le> w
       \<and> (phase s = Feeding \<longrightarrow> held s = length (running s))
       \<and> (phase s = Returned \<longrightarrow>
             pending s = [] \<and> running s = [] \<and> mset (map fst (finished s)) = mset paths)
       \<and> (phase s = Aborted \<longrightarrow> (\<exists>f\<in>set paths. \<exists>p. outcome f (Panic p)))"
  using reachable_accounted [OF assms] reachable_aborted [OF assms]
  by (auto simp: accounted_def)

theorem run_bounded_witness:
  "reachable (pipeline plainLib threeFiles ''/out'' 512) 2
       [''/in/a_FOO_1_2_3_4_5'', ''/in/b_FOO_1_2_3_4_5'', ''/in/missing'']
       \<lparr>pending = [''/in/missing''], running = [''/in/b_FOO_1_2_3_4_5'', ''/in/a_FOO_1_2_3_4_5''],
        finished = [], held = 2, phase = Feeding\<rparr>
   \<and> length (running \<lparr>pending = [''/in/missing''],
        running = [''/in/b_FOO_1_2_3_4_5'', ''/in/a_FOO_1_2_3_4_5''],
        finished = [], held = 2, phase = Feeding\<rparr>) \<le> (2::nat)
   \<and> reachable (pipeline plainLib threeFiles ''/out'' 512) 2
       [''/in/a_FOO_1_2_3_4_5'', ''/in/b_FOO_1_2_3_4_5'', ''/in/missing'']
       \<lparr>pending = [], running = [],
        finished = [(''/in/b_FOO_1_2_3_4_5'', ''/out/FOO/000000/000a_FOO_19800106_000080_000009.csv'', None),
                    (''/in/missing'', [], Some ENOENT),
                    (''/in/a_FOO_1_2_3_4_5'', ''/out/FOO/000000/000a_FOO_19800106_000080_000008.csv'', None)],
        held = 2, phase = Returned\<rparr>
   \<and> mset [''/in/b_FOO_1_2_3_4_5'', ''/in/missing'', ''/in/a_FOO_1_2_3_4_5'']
       = mset [''/in/a_FOO_1_2_3_4_5'', ''/in/b_FOO_1_2_3_4_5'', ''/in/missing'']"
proof -
  let ?out = "pipeline plainLib threeFiles ''/out'' 512"
  let ?a = "''/in/a_FOO_1_2_3_4_5''"
  let ?b = "''/in/b_FOO_1_2_3_4_5''"
  let ?m = "''/in/missing''"
  let ?ra = "(''/out/FOO/000000/000a_FOO_19800106_000080_000008.csv'', None :: error option)"
  let ?rb = "(''/out/FOO/000000/000a_FOO_19800106_000080_000009.csv'', None :: error option)"
  let ?rm = "([] :: string, Some ENOENT)"
  let ?paths = "[?a, ?b, ?m]"
  let ?s0 = "start ?paths"
  let ?s1 = "\<lparr>pending = [?b, ?m], running = [?a], finished = [], held = 1, phase = Feeding\<rparr>"
  let ?s2 = "\<lparr>pending = [?m], running = [?b, ?a], finished = [], held = 2, phase = Feeding\<rparr>"
  let ?s3 = "\<lparr>pending = [?m], running = [?b], finished = [(?a, ?ra)], held = 1, phase = Feeding\<rparr>"
  let ?s4 = "\<lparr>pending = [], running = [?m, ?b], finished = [(?a, ?ra)], held = 2, phase = Feeding\<rparr>"
  let ?s5 = "\<lparr>pending = [], running = [?b], finished = [(?m, ?rm), (?a, ?ra)], held = 1, phase = Feeding\<rparr>"
  let ?s6 = "\<lparr>pending = [], running = [], finished = [(?b, ?rb), (?m, ?rm), (?a, ?ra)], held = 0, phase = Feeding\<rparr>"
  let ?s7 = "\<lparr>pending = [], running = [], finished = [(?b, ?rb), (?m, ?rm), (?a, ?ra)], held = 2, phase = Returned\<rparr>"
  have oa: "?out ?a (Return ?ra)"
    unfolding pipeline_def by code_simp
  have ob: "?out ?b (Return ?rb)"
    unfolding pipeline_def by code_simp
  have om: "?out ?m (Return ?rm)"
    unfolding pipeline_def by code_simp
  have "step ?out 2 ?s0 (?s0\<lparr>pending := [?b, ?m], running := ?a # running ?s0, held := held ?s0 + 1\<rparr>)"
    by (rule step.admit) (simp_all add: start_def)
  then have 1: "step ?out 2 ?s0 ?s1"
    by (simp add: start_def)
  have "step ?out 2 ?s1 (?s1\<lparr>pending := [?m], running := ?b # running ?s1, held := held ?s1 + 1\<rparr>)"
    by (rule step.admit) simp_all
  then have 2: "step ?out 2 ?s1 ?s2"
    by (simp add: numeral_2_eq_2)
  have "step ?out 2 ?s2 (?s2\<lparr>running := remove1 ?a (running ?s2),
      finished := (?a, ?ra) # finished ?s2, held := held ?s2 - 1\<rparr>)"
    using oa by (intro step.complete) simp_all
  then have 3: "step ?out 2 ?s2 ?s3"
    by simp
  have "step ?out 2 ?s3 (?s3\<lparr>pending := [], running := ?m # running ?s3, held := held ?s3 + 1\<rparr>)"
    by (rule step.admit) simp_all
  then have 4: "step ?out 2 ?s3 ?s4"
    by (simp add: numeral_2_eq_2)
  have "step ?out 2 ?s4 (?s4\<lparr>running := remove1 ?m (running ?s4),
      finished := (?m, ?rm) # finished ?s4, held := held ?s4 - 1\<rparr>)"
    using om by (intro step.complete) simp_all
  then have 5: "step ?out 2 ?s4 ?s5"
    by simp
  have "step ?out 2 ?s5 (?s5\<lparr>running := remove1 ?b (running ?s5),
      finished := (?b, ?rb) # finished ?s5, held := held ?s5 - 1\<rparr>)"
    using ob by (intro step.complete) simp_all
  then have 6: "step ?out 2 ?s5 ?s6"
    by simp
  have "step ?out 2 ?s6 (?s6\<lparr>held := held ?s6 + 2, phase := Returned\<rparr>)"
    by (rule step.drain) simp_all
  then have 7: "step ?out 2 ?s6 ?s7"
    by (simp add: numeral_2_eq_2)
  note r0 = reachable.initial [of ?out 2 ?paths]
  note r1 = reachable.further [OF r0 1]
  note r2 = reachable.further [OF r1 2]
  note r3 = reachable.further [OF r2 3]
  note r4 = reachable.further [OF r3 4]
  note r5 = reachable.further [OF r4 5]
  note r6 = reachable.further [OF r5 6]
  note r7 = reachable.further [OF r6 7]
  have b: "length (running ?s2) \<le> 2"
    using run_bounded [OF r2] by (rule conjunct1)
  have "phase ?s7 = Returned \<longrightarrow>
      pending ?s7 = [] \<and> running ?s7 = [] \<and> mset (map fst (finished ?s7)) = mset ?paths"
    using run_bounded [OF r7] by blast
  then have m: "mset [?b, ?m, ?a] = mset ?paths"
    by simp
  from r2 b r7 m show ?thesis
    by (intro conjI)
qed

text \<open>
  C8.  A run does not always end drained.  With two workers and the three paths
  \<^verbatim>\<open>a_b.dat\<close>, \<^verbatim>\<open>/in/a_FOO_1_2_3_4_5\<close> and \<^verbatim>\<open>/in/b_FOO_1_2_3_4_5\<close>, each a data record, the
  first two are admitted; the call of \<^verbatim>\<open>processFile\<close> on \<^verbatim>\<open>a_b.dat\<close> panics on the slice of
  the parts of the name, and the process ends with the second pipeline still running
  and the third path never admitted.
\<close>

theorem run_aborts_undrained:
  "returned (processFile plainLib threeFiles ''a_b.dat'' ''/out'' 512) = Some (Panic SliceBoundsOutOfRange)
   \<and> reachable (pipeline plainLib threeFiles ''/out'' 512) 2
       [''a_b.dat'', ''/in/a_FOO_1_2_3_4_5'', ''/in/b_FOO_1_2_3_4_5'']
       \<lparr>pending = [''/in/b_FOO_1_2_3_4_5''], running = [''/in/a_FOO_1_2_3_4_5'', ''a_b.dat''],
        finished = [], held = 2, phase = Aborted\<rparr>"
proof -
  let ?out = "pipeline plainLib threeFiles ''/out'' 512"
  let ?c = "''a_b.dat''"
  let ?a = "''/in/a_FOO_1_2_3_4_5''"
  let ?b = "''/in/b_FOO_1_2_3_4_5''"
  let ?paths = "[?c, ?a, ?b]"
  let ?s0 = "start ?paths"
  let ?s1 = "\<lparr>pending = [?a, ?b], running = [?c], finished = [], held = 1, phase = Feeding\<rparr>"
  let ?s2 = "\<lparr>pending = [?b], running = [?a, ?c], finished = [], held = 2, phase = Feeding\<rparr>"
  let ?s3 = "\<lparr>pending = [?b], running = [?a, ?c], finished = [], held = 2, phase = Aborted\<rparr>"
  have p: "returned (processFile plainLib threeFiles ?c ''/out'' 512) = Some (Panic SliceBoundsOutOfRange)"
    by code_simp
  then have oc: "?out ?c (Panic SliceBoundsOutOfRange)"
    by (simp add: pipeline_def)
  have "step ?out 2 ?s0 (?s0\<lparr>pending := [?a, ?b], running := ?c # running ?s0, held := held ?s0 + 1\<rparr>)"
    by (rule step.admit) (simp_all add: start_def)
  then have 1: "step ?out 2 ?s0 ?s1"
    by (simp add: start_def)
  have "step ?out 2 ?s1 (?s1\<lparr>pending := [?b], running := ?a # running ?s1, held := held ?s1 + 1\<rparr>)"
    by (rule step.admit) simp_all
  then have 2: "step ?out 2 ?s1 ?s2"
    by (simp add: numeral_2_eq_2)
  have "step ?out 2 ?s2 (?s2\<lparr>phase := Aborted\<rparr>)"
    using oc by (intro step.panicked [of _ ?c]) simp_all
  then have 3: "step ?out 2 ?s2 ?s3"
    by simp
  note r0 = reachable.initial [of ?out 2 ?paths]
  note r1 = reachable.further [OF r0 1]
  note r2 = reachable.further [OF r1 2]
  note r3 = reachable.further [OF r2 3]
  from p r3 show ?thesis
    by (intro conjI)
qed

subsection \<open>The records of a sample block\<close>

lemma readScales_ok:
  "2 * n \<le> length r \<Longrightarrow> \<exists>hs. readScales n r = Inr (hs, drop (2 * n) r) \<and> length hs = n"
proof (induction n arbitrary: r)
  case 0
  then show ?case by simp
next
  case (Suc n)
  from Suc.prems have b: "binaryRead 2 r = Inr (take 2 r, drop 2 r)"
    by (simp add: binaryRead_def)
  from Suc.prems have "2 * n \<le> length (drop 2 r)"
    by simp
  from Suc.IH [OF this] obtain hs where
    "readScales n (drop 2 r) = Inr (hs, drop (2 * n) (drop 2 r))" "length hs = n"
    by blast
  with b show ?case
    by (simp add: add.commute)
qed

lemma readFloats_ok:
  "4 * n \<le> length r \<Longrightarrow> \<exists>vs. readFloats n r = Inr (vs, drop (4 * n) r) \<and> length vs = n"
proof (induction n arbitrary: r)
  case 0
  then show ?case by simp
next
  case (Suc n)
  from Suc.prems have b: "binaryRead 4 r = Inr (take 4 r, drop 4 r)"
    by (simp add: binaryRead_def)
  from Suc.prems have "4 * n \<le> length (drop 4 r)"
    by simp
  from Suc.IH [OF this] obtain vs where
    "readFloats n (drop 4 r) = Inr (vs, drop (4 * n) (drop 4 r))" "length vs = n"
    by blast
  with b show ?case
    by (simp add: add.commute)
qed

lemma rowLoop_complete:
  assumes "0 < n" and "length r = 4 * n * R"
  shows "\<exists>rows. rowLoop L n i r acc = Some (None, acc @ rows) \<and> length rows = R
           \<and> (\<forall>j<R. hd (rows ! j) = Itoa (int (i + j)) \<and> length (rows ! j) = Suc n)"
  using assms(2)
proof (induction R arbitrary: r i acc)
  case 0
  then show ?case by (simp add: rowLoop.simps)
next
  case (Suc R)
  from Suc.prems assms(1) have ne: "r \<noteq> []" and len: "4 * n \<le> length r"
    by auto
  from readFloats_ok [OF len] obtain vs where
    vs: "readFloats n r = Inr (vs, drop (4 * n) r)" "length vs = n"
    by blast
  let ?row = "Itoa (int i) # map (formatFloat32 L) vs"
  from Suc.prems have "length (drop (4 * n) r) = 4 * n * R"
    by simp
  from Suc.IH [OF this, of "Suc i" "acc @ [?row]"] obtain rows where
    rows: "rowLoop L n (Suc i) (drop (4 * n) r) (acc @ [?row]) = Some (None, (acc @ [?row]) @ rows)"
      "length rows = R"
      "\<forall>j<R. hd (rows ! j) = Itoa (int (Suc i + j)) \<and> length (rows ! j) = Suc n"
    by blast
  have "rowLoop L n i r acc = Some (None, acc @ (?row # rows))"
    using ne vs rows(1) by (subst rowLoop.simps) simp
  moreover have "length (?row # rows) = Suc R"
    using rows(2) by simp
  moreover have "\<forall>j<Suc R. hd ((?row # rows) ! j) = Itoa (int (i + j)) \<and> length ((?row # rows) ! j) = Suc n"
  proof (intro allI impI)
    fix j
    assume "j < Suc R"
    then show "hd ((?row # rows) ! j) = Itoa (int (i + j)) \<and> length ((?row # rows) ! j) = Suc n"
      using rows(3) vs(2) by (cases j) auto
  qed
  ultimately show ?case by blast
qed

text \<open>
  A sample block of \<open>N \<ge> 1\<close> columns and \<open>R\<close> complete rows: \<^verbatim>\<open>processData\<close> hands the CSV
  writer the header record (\<^verbatim>\<open>t\<close> and \<open>N\<close> labels) followed by \<open>R\<close> data records, the
  \<open>j\<close>-th starting with the index \<open>j\<close> (from 0) and holding \<open>N\<close> values after it, and
  returns no error.
\<close>

theorem sample_block_records:
  assumes "1 \<le> unat b" and "length rs = 2 * unat b + 4 * unat b * R"
    and "osCreate s file = Inr s1"
  shows "\<exists>hs rows. processData L s (b # rs) file
            = Some (None, writeFile s1 file (csvEncode L ((''t'' # hs) # rows)))
          \<and> length hs = unat b \<and> length rows = R
          \<and> (\<forall>j<R. hd (rows ! j) = Itoa (int j) \<and> length (rows ! j) = Suc (unat b))"
proof -
  from assms(2) have "2 * unat b \<le> length rs"
    by simp
  from readScales_ok [OF this] obtain hs where
    hs: "readScales (unat b) rs = Inr (hs, drop (2 * unat b) rs)" "length hs = unat b"
    by blast
  from assms(1) have n: "0 < unat b"
    by simp
  from assms(2) have "length (drop (2 * unat b) rs) = 4 * unat b * R"
    by simp
  from rowLoop_complete [OF n this, of L 0 "[''t'' # hs]"] obtain rows where
    rows: "rowLoop L (unat b) 0 (drop (2 * unat b) rs) [''t'' # hs] = Some (None, [''t'' # hs] @ rows)"
      "length rows = R"
      "\<forall>j<R. hd (rows ! j) = Itoa (int (0 + j)) \<and> length (rows ! j) = Suc (unat b)"
    by blast
  have "processData L s (b # rs) file = Some (None, writeFile s1 file (csvEncode L ((''t'' # hs) # rows)))"
    using assms(3) hs(1) rows(1) by (simp add: processData_def)
  with hs(2) rows(2,3) show ?thesis
    by auto
qed


lemma osCreate_new:
  assumes "p \<noteq> []" and "p \<notin> dirs s" and "parentDir p = [] \<or> parentDir p \<in> dirs s"
  shows "osCreate s p = Inr (s\<lparr>files := (files s)(p \<mapsto> [])\<rparr>)"
  using assms by (auto simp: osCreate_def)

theorem sample_block_records_witness:
  "\<exists>hs rows. processData plainLib emptyFs sampleBlock ''x.csv''
       = Some (None, writeFile (emptyFs\<lparr>files := (files emptyFs)(''x.csv'' \<mapsto> [])\<rparr>) ''x.csv''
                       (csvEncode plainLib ((''t'' # hs) # rows)))
     \<and> length hs = 2 \<and> length rows = 1 \<and> hd (rows ! 0) = ''0''"
proof -
  let ?rs = "[5, 0, 9, 0, 0, 0, 192, 63, 0, 0, 16, 192] :: byte list"
  have a: "1 \<le> unat (2 :: byte)"
    by simp
  have b: "length ?rs = 2 * unat (2 :: byte) + 4 * unat (2 :: byte) * 1"
    by simp
  have "parentDir ''x.csv'' = []"
    by code_simp
  then have c: "osCreate emptyFs ''x.csv'' = Inr (emptyFs\<lparr>files := (files emptyFs)(''x.csv'' \<mapsto> [])\<rparr>)"
    by (intro osCreate_new) (simp_all add: emptyFs_def)
  have d: "Itoa (int 0) = ''0''"
    by code_simp
  from sample_block_records [OF a b c, of plainLib] d show ?thesis
    by (fastforce simp: sampleBlock_def)
qed

text \<open>With a column count of zero and any byte after it the row loop never ends, and
  \<^verbatim>\<open>processData\<close> does not return.\<close>

theorem processData_no_column:
  assumes "osCreate s file = Inr s1" and "rs \<noteq> []"
  shows "processData L s (0 # rs) file = None"
  using assms by (simp add: processData_def rowLoop_no_column)

theorem processData_no_column_witness:
  "processData plainLib emptyFs [0, 1] ''x.csv'' = None"
proof -
  have "parentDir ''x.csv'' = []"
    by code_simp
  then have a: "osCreate emptyFs ''x.csv'' = Inr (emptyFs\<lparr>files := (files emptyFs)(''x.csv'' \<mapsto> [])\<rparr>)"
    by (intro osCreate_new) (simp_all add: emptyFs_def)
  have b: "[1 :: byte] \<noteq> []"
    by simp
  from processData_no_column [OF a b] show ?thesis .
qed

subsection \<open>The introductory record\<close>

text \<open>For a recognized file with the sequence counter 1, the file \<^verbatim>\<open><identifier>.ini\<close> in
  the directory of the identifier holds exactly the bytes that follow the 16 bytes of the
  envelope, and its path is returned.\<close>

theorem intro_copied:
  assumes "files s file = Some bs" and "16 \<le> length bs" and "take 4 bs = magic"
    and "middleParts (splitOn (CHR ''_'') (Base file)) = Return mid"
    and "MkdirAll s (Join datadir (joinWith ''_'' mid)) = Inr s1"
    and "(be_word (take 4 (drop 4 bs)) :: 32 word) = 1"
    and "osCreate s1 (Join (Join datadir (joinWith ''_'' mid)) (joinWith ''_'' mid @ ''.ini'')) = Inr s2"
  shows "\<exists>s'. processFile L s file datadir per
            = Some (Return (Join (Join datadir (joinWith ''_'' mid)) (joinWith ''_'' mid @ ''.ini''), None), s')
          \<and> files s' (Join (Join datadir (joinWith ''_'' mid)) (joinWith ''_'' mid @ ''.ini''))
              = Some (drop 16 bs)"
  using processFile_recognized [OF assms(1-5), of L per] assms(6,7)
  by (simp add: processIntro_def Let_def writeFile_def)

theorem intro_copied_witness:
  "\<exists>s'. processFile plainLib introFs ''/in/a_FOO_1_2_3_4_5'' ''/out'' 512
           = Some (Return (''/out/FOO/FOO.ini'', None), s')
        \<and> files s' ''/out/FOO/FOO.ini'' = Some [7, 8, 9]"
proof -
  let ?bs = "envelope 1 @ [7, 8, 9]"
  have a: "files introFs ''/in/a_FOO_1_2_3_4_5'' = Some ?bs"
    by (simp add: introFs_def oneFile_def)
  have b: "16 \<le> length ?bs"
    by code_simp
  have c: "take 4 ?bs = magic"
    by code_simp
  have d: "middleParts (splitOn (CHR ''_'') (Base ''/in/a_FOO_1_2_3_4_5'')) = Return [''FOO'']"
    by code_simp
  have e: "Join ''/out'' ''FOO'' = ''/out/FOO''" "Join ''/out/FOO'' ''FOO.ini'' = ''/out/FOO/FOO.ini''"
    by code_simp+
  have f: "(be_word (take 4 (drop 4 ?bs)) :: 32 word) = 1"
    by code_simp
  have g: "drop 16 ?bs = [7, 8, 9]"
    by code_simp
  have "isl (MkdirAll introFs ''/out/FOO'') = False"
    by code_simp
  then obtain s1 where m: "MkdirAll introFs ''/out/FOO'' = Inr s1"
    by (cases "MkdirAll introFs ''/out/FOO''") auto
  have anc: "ancestors ''/out/FOO'' = [''/out'']" and par: "parentDir ''/out/FOO/FOO.ini'' = ''/out/FOO''"
    by code_simp+
  from MkdirAll_dirs [OF m] anc have "dirs s1 \<subseteq> {''/out/FOO'', ''/out''}"
    by (simp add: introFs_def oneFile_def)
  then have "''/out/FOO/FOO.ini'' \<notin> dirs s1"
    by auto
  moreover from m have "''/out/FOO'' \<in> dirs s1"
    by (rule MkdirAll_made)
  ultimately have h: "osCreate s1 ''/out/FOO/FOO.ini''
      = Inr (s1\<lparr>files := (files s1)(''/out/FOO/FOO.ini'' \<mapsto> [])\<rparr>)"
    using par by (intro osCreate_new) simp_all
  from intro_copied [OF a b c d, of "''/out''" s1 "s1\<lparr>files := (files s1)(''/out/FOO/FOO.ini'' \<mapsto> [])\<rparr>"
      plainLib 512] m f h g
  show ?thesis by (simp add: e)
qed

subsection \<open>The flags\<close>

text \<open>A number of files per directory or of workers that is not positive is replaced by
  the default, 512 or 4; the number used is positive.\<close>

theorem effective_flags:
  "effectivePer per = (if per \<le> 0 then 512 else per) \<and> 0 < effectivePer per
   \<and> effectiveWorkers workers = (if workers \<le> 0 then 4 else workers) \<and> 0 < effectiveWorkers workers"
  by (simp add: effectivePer_def effectiveWorkers_def DefaultFiles_def DefaultWorkers_def)

end
